theory Spec2Isabelle
  imports Complex_Main "HOL-Library.Multiset"
begin

section \<open>InferMate: the vector store and the provider router\<close>

text \<open>
  A shallow embedding of \<^verbatim>\<open>services/vectorStore.ts\<close> (class \<^verbatim>\<open>VectorStore\<close>) and of the parts
  of \<^verbatim>\<open>services/geminiService.ts\<close> it rests on (\<^verbatim>\<open>withRetry\<close>, \<^verbatim>\<open>getEmbedding\<close>) or
  that route a chat turn (\<^verbatim>\<open>chatHybrid\<close>).

  Conventions of the model:
  \<^item> every call that leaves the program (the embedding endpoint, the chat endpoint,
    \<^verbatim>\<open>Math.random\<close>, \<^verbatim>\<open>Date.now\<close>, a subscribed callback) is an oracle that takes the state
    of the outside world \<open>'w\<close> and returns its answer with the next state; theorems hold
    for every oracle;
  \<^item> a rejected promise or a thrown exception is \<open>Inl\<close> of the thrown value, a normal
    return is \<open>Inr\<close>;
  \<^item> a JavaScript string is a list of code units; \<^verbatim>\<open>length\<close> and \<^verbatim>\<open>slice\<close> count them.
\<close>

subsection \<open>Array and string primitives of the language\<close>

text \<open>\<^verbatim>\<open>Array.prototype.slice(start, end)\<close> and \<^verbatim>\<open>String.prototype.slice\<close> for integral
  arguments: a negative index counts from the end, both are clamped to the length.\<close>

definition slice :: "'a list \<Rightarrow> int \<Rightarrow> int \<Rightarrow> 'a list" where
  "slice xs start fin =
     (let len = int (length xs);
          k = (if start < 0 then max (len + start) 0 else min start len);
          final = (if fin < 0 then max (len + fin) 0 else min fin len)
      in take (nat (final - k)) (drop (nat k) xs))"

text \<open>\<^verbatim>\<open>String.prototype.substring(start)\<close> with one non-negative argument.\<close>

definition substring :: "'a list \<Rightarrow> nat \<Rightarrow> 'a list" where
  "substring s start = drop start s"

subsection \<open>The chunker\<close>

text \<open>
  \<^verbatim>\<open>
  private chunkText(text: string, chunkSize: number): string[] {
      const chunks = [];
      for (let i = 0; i < text.length; i += chunkSize) {
          chunks.push(text.slice(i, i + chunkSize));
      }
      return chunks;
  }
  \<close>
  The loop does not advance when \<^verbatim>\<open>chunkSize\<close> is 0, so it is a partial function: \<open>None\<close>
  is the run that never returns. The chunk size is a count of code units, a natural number.
\<close>

partial_function (option) chunkText_loop ::
  "'a list \<Rightarrow> nat \<Rightarrow> nat \<Rightarrow> 'a list list \<Rightarrow> 'a list list option" where
  "chunkText_loop text' chunkSize i chunks =
     (if i < length text'
      then chunkText_loop text' chunkSize (i + chunkSize)
             (chunks @ [slice text' (int i) (int i + int chunkSize)])
      else Some chunks)"

definition chunkText :: "'a list \<Rightarrow> nat \<Rightarrow> 'a list list option" where
  "chunkText text' chunkSize = chunkText_loop text' chunkSize 0 []"

subsection \<open>Numbers\<close>

text \<open>
  A JavaScript number is modelled as an exact real, or one of the values \<^verbatim>\<open>Infinity\<close>,
  \<^verbatim>\<open>-Infinity\<close> and \<^verbatim>\<open>NaN\<close>, with the arithmetic of IEEE 754 on these values (\<open>0/0\<close>,
  \<open>\<infinity> - \<infinity>\<close> and \<open>0 * \<infinity>\<close> are \<^verbatim>\<open>NaN\<close>, and \<^verbatim>\<open>NaN\<close> is absorbing). Rounding, overflow
  and the sign of zero are outside the model: where the code rounds, its scores differ
  from the model's in the last digits, and two scores that are equal here need not be
  equal there. The statements about computed scores are therefore about the cases that
  rounding does not touch: a vector of zero magnitude, whose score is \<^verbatim>\<open>NaN\<close> in double
  precision as well, and the vectors of the examples, of magnitude 0 or 1.
\<close>

datatype number = Num real | PInf | NInf | NaN

fun num_neg :: "number \<Rightarrow> number" where
  "num_neg (Num x) = Num (- x)"
| "num_neg PInf = NInf"
| "num_neg NInf = PInf"
| "num_neg NaN = NaN"

fun num_add :: "number \<Rightarrow> number \<Rightarrow> number" where
  "num_add (Num x) (Num y) = Num (x + y)"
| "num_add NaN _ = NaN"
| "num_add _ NaN = NaN"
| "num_add PInf NInf = NaN"
| "num_add NInf PInf = NaN"
| "num_add PInf _ = PInf"
| "num_add NInf _ = NInf"
| "num_add _ PInf = PInf"
| "num_add _ NInf = NInf"

definition num_sub :: "number \<Rightarrow> number \<Rightarrow> number" where
  "num_sub a b = num_add a (num_neg b)"

fun num_mul :: "number \<Rightarrow> number \<Rightarrow> number" where
  "num_mul (Num x) (Num y) = Num (x * y)"
| "num_mul NaN _ = NaN"
| "num_mul _ NaN = NaN"
| "num_mul (Num x) PInf = (if x = 0 then NaN else if 0 < x then PInf else NInf)"
| "num_mul (Num x) NInf = (if x = 0 then NaN else if 0 < x then NInf else PInf)"
| "num_mul PInf (Num y) = (if y = 0 then NaN else if 0 < y then PInf else NInf)"
| "num_mul NInf (Num y) = (if y = 0 then NaN else if 0 < y then NInf else PInf)"
| "num_mul PInf PInf = PInf"
| "num_mul PInf NInf = NInf"
| "num_mul NInf PInf = NInf"
| "num_mul NInf NInf = PInf"

fun num_div :: "number \<Rightarrow> number \<Rightarrow> number" where
  "num_div (Num x) (Num y) =
     (if y \<noteq> 0 then Num (x / y) else if x = 0 then NaN else if 0 < x then PInf else NInf)"
| "num_div NaN _ = NaN"
| "num_div _ NaN = NaN"
| "num_div (Num x) _ = Num 0"
| "num_div PInf (Num y) = (if 0 \<le> y then PInf else NInf)"
| "num_div NInf (Num y) = (if 0 \<le> y then NInf else PInf)"
| "num_div PInf PInf = NaN"
| "num_div PInf NInf = NaN"
| "num_div NInf PInf = NaN"
| "num_div NInf NInf = NaN"

fun num_sqrt :: "number \<Rightarrow> number" where
  "num_sqrt (Num x) = (if x < 0 then NaN else Num (sqrt x))"
| "num_sqrt PInf = PInf"
| "num_sqrt NInf = NaN"
| "num_sqrt NaN = NaN"

text \<open>The test \<^verbatim>\<open>v > 0\<close>: false on \<^verbatim>\<open>NaN\<close>.\<close>

fun num_positive :: "number \<Rightarrow> bool" where
  "num_positive (Num x) = (0 < x)"
| "num_positive PInf = True"
| "num_positive _ = False"

text \<open>An array element used as an operand: reading past the end gives \<^verbatim>\<open>undefined\<close>, which
  arithmetic converts to \<^verbatim>\<open>NaN\<close>.\<close>

definition elem :: "number list \<Rightarrow> nat \<Rightarrow> number" where
  "elem xs i = (if i < length xs then xs ! i else NaN)"

subsection \<open>Cosine similarity\<close>

text \<open>
  \<^verbatim>\<open>
  private cosineSimilarity(vecA: number[], vecB: number[]): number {
      let dotProduct = 0; let magA = 0; let magB = 0;
      for (let i = 0; i < vecA.length; i++) {
          dotProduct += vecA[i] * vecB[i];
          magA += vecA[i] * vecA[i];
          magB += vecB[i] * vecB[i];
      }
      return dotProduct / (Math.sqrt(magA) * Math.sqrt(magB));
  }
  \<close>
\<close>

definition cosine_step :: "number list \<Rightarrow> number list \<Rightarrow> nat
    \<Rightarrow> number \<times> number \<times> number \<Rightarrow> number \<times> number \<times> number" where
  "cosine_step vecA vecB i acc =
     (case acc of (dotProduct, magA, magB) \<Rightarrow>
        (num_add dotProduct (num_mul (elem vecA i) (elem vecB i)),
         num_add magA (num_mul (elem vecA i) (elem vecA i)),
         num_add magB (num_mul (elem vecB i) (elem vecB i))))"

definition cosineSimilarity :: "number list \<Rightarrow> number list \<Rightarrow> number" where
  "cosineSimilarity vecA vecB =
     (case fold (cosine_step vecA vecB) [0..<length vecA] (Num 0, Num 0, Num 0) of
        (dotProduct, magA, magB) \<Rightarrow>
          num_div dotProduct (num_mul (num_sqrt magA) (num_sqrt magB)))"

subsection \<open>Sorting with a comparator\<close>

text \<open>
  \<^verbatim>\<open>Array.prototype.sort(comparefn)\<close>. The language fixes the result when the comparator is a
  consistent ordering of the elements (the sorted permutation that keeps equal elements in
  their order) and leaves it to the engine otherwise, which is the case of a comparator
  that returns \<^verbatim>\<open>NaN\<close> for some pairs. The model follows the engine of Chrome and Node (V8,
  \<^verbatim>\<open>third_party/v8/builtins/array-sort.tq\<close>) on an array of fewer than 64 elements, which
  that engine sorts as a single run:
  \<^verbatim>\<open>
  CountAndMakeRun(lowArg, high):
      low = lowArg + 1; if (low == high) return 1;
      runLength = 2;
      elementLow = workArray[low]; elementHigh = workArray[low - 1];
      order = Compare(elementLow, elementHigh);
      isDescending = order < 0;
      previousElement = elementLow;
      for (idx = low + 1; idx < high; ++idx) {
          currentElement = workArray[idx];
          order = Compare(currentElement, previousElement);
          if (isDescending) { if (order >= 0) break; } else { if (order < 0) break; }
          previousElement = currentElement; ++runLength;
      }
      if (isDescending) ReverseRange(workArray, lowArg, lowArg + runLength);
      return runLength;

  BinaryInsertionSort(low, startArg, high):
      for (start = startArg; start < high; ++start) {
          left = low; right = start; pivot = workArray[right];
          while (left < right) {
              mid = left + ((right - left) >> 1);
              order = Compare(pivot, workArray[mid]);
              if (order < 0) { right = mid; } else { left = mid + 1; }
          }
          for (p = start; p > left; --p) workArray[p] = workArray[p - 1];
          workArray[left] = pivot;
      }
  \<close>
  \<^verbatim>\<open>Compare\<close> calls the comparator and replaces a result \<^verbatim>\<open>NaN\<close> by 0. An array of fewer than
  two elements is returned as it is. An array of 64 elements or more is cut into several
  runs that the engine merges; the model does not follow the merge and sorts such an array
  in the same way as a shorter one. When the comparator is a consistent ordering the model
  returns the stable sorted permutation at every length (lemma \<open>sort_by_sort_key\<close>).
\<close>

text \<open>The test \<^verbatim>\<open>v < 0\<close>: false on \<^verbatim>\<open>NaN\<close>.\<close>

fun num_negative :: "number \<Rightarrow> bool" where
  "num_negative (Num x) = (x < 0)"
| "num_negative NInf = True"
| "num_negative _ = False"

definition Compare :: "('a \<Rightarrow> 'a \<Rightarrow> number) \<Rightarrow> 'a \<Rightarrow> 'a \<Rightarrow> number" where
  "Compare comparefn x y = (if comparefn x y = NaN then Num 0 else comparefn x y)"

text \<open>The loop of \<^verbatim>\<open>CountAndMakeRun\<close>: the number of elements after the second one that
  continue the run.\<close>

fun CountAndMakeRun_loop :: "('a \<Rightarrow> 'a \<Rightarrow> number) \<Rightarrow> bool \<Rightarrow> 'a \<Rightarrow> 'a list \<Rightarrow> nat" where
  "CountAndMakeRun_loop comparefn isDescending previousElement [] = 0"
| "CountAndMakeRun_loop comparefn isDescending previousElement (currentElement # rest) =
     (if num_negative (Compare comparefn currentElement previousElement) = isDescending
      then Suc (CountAndMakeRun_loop comparefn isDescending currentElement rest)
      else 0)"

text \<open>\<^verbatim>\<open>CountAndMakeRun\<close> on the whole array: the array it leaves and the length of the run.\<close>

definition CountAndMakeRun :: "('a \<Rightarrow> 'a \<Rightarrow> number) \<Rightarrow> 'a list \<Rightarrow> 'a list \<times> nat" where
  "CountAndMakeRun comparefn workArray =
     (case workArray of
        elementHigh # elementLow # rest \<Rightarrow>
          (let isDescending = num_negative (Compare comparefn elementLow elementHigh);
               runLength = 2 + CountAndMakeRun_loop comparefn isDescending elementLow rest
           in (if isDescending
               then rev (take runLength workArray) @ drop runLength workArray
               else workArray,
               runLength))
      | _ \<Rightarrow> (workArray, length workArray))"

text \<open>The binary search of \<^verbatim>\<open>BinaryInsertionSort\<close> for the place of \<open>pivot\<close> among the
  elements before it (\<open>right\<close> is at most the length of \<open>run\<close>, so every index read is in
  range), and the insertion of the elements after the run, one by one.\<close>

function BinaryInsertionSort_search ::
    "('a \<Rightarrow> 'a \<Rightarrow> number) \<Rightarrow> 'a list \<Rightarrow> 'a \<Rightarrow> nat \<Rightarrow> nat \<Rightarrow> nat" where
  "BinaryInsertionSort_search comparefn run pivot left right =
     (if left < right
      then (let mid = left + (right - left) div 2
            in if num_negative (Compare comparefn pivot (run ! mid))
               then BinaryInsertionSort_search comparefn run pivot left mid
               else BinaryInsertionSort_search comparefn run pivot (mid + 1) right)
      else left)"
  by pat_completeness auto
termination
  by (relation "measure (\<lambda>(comparefn, run, pivot, left, right). right - left)") auto

declare BinaryInsertionSort_search.simps [simp del]

fun BinaryInsertionSort :: "('a \<Rightarrow> 'a \<Rightarrow> number) \<Rightarrow> 'a list \<Rightarrow> 'a list \<Rightarrow> 'a list" where
  "BinaryInsertionSort comparefn run [] = run"
| "BinaryInsertionSort comparefn run (pivot # rest) =
     (let left = BinaryInsertionSort_search comparefn run pivot 0 (length run)
      in BinaryInsertionSort comparefn (take left run @ pivot # drop left run) rest)"

definition sort_by :: "('a \<Rightarrow> 'a \<Rightarrow> number) \<Rightarrow> 'a list \<Rightarrow> 'a list" where
  "sort_by comparefn xs =
     (if length xs < 2 then xs
      else (case CountAndMakeRun comparefn xs of
              (workArray, runLength) \<Rightarrow>
                BinaryInsertionSort comparefn (take runLength workArray) (drop runLength workArray)))"

subsection \<open>Errors and the retry helper\<close>

text \<open>A thrown value, as far as the program inspects it: \<^verbatim>\<open>error.status\<close>, \<^verbatim>\<open>error.code\<close>
  (when they are numbers) and \<^verbatim>\<open>error.message\<close>.\<close>

record js_error =
  status :: "int option"
  code :: "int option"
  message :: "string option"

text \<open>\<^verbatim>\<open>String.prototype.includes\<close>.\<close>

fun includes_str :: "'a list \<Rightarrow> 'a list \<Rightarrow> bool" where
  "includes_str [] w = (w = [])"
| "includes_str (c # cs) w = (take (length w) (c # cs) = w \<or> includes_str cs w)"

text \<open>
  \<^verbatim>\<open>
  const isInternal = error?.status === 500 || error?.code === 500
                     || error?.message?.includes("Internal error");
  \<close>
\<close>

definition isInternal :: "js_error \<Rightarrow> bool" where
  "isInternal error =
     (status error = Some 500 \<or> code error = Some 500 \<or>
      (case message error of None \<Rightarrow> False | Some m \<Rightarrow> includes_str m ''Internal error''))"

text \<open>
  \<^verbatim>\<open>
  async function withRetry<T>(fn: () => Promise<T>, retries = 3, delay = 1000): Promise<T> {
    try {
      return await fn();
    } catch (error: any) {
      const isInternal = ...;
      if (isInternal && retries > 0) {
        await new Promise(resolve => setTimeout(resolve, delay));
        return withRetry(fn, retries - 1, delay * 2);
      }
      throw error;
    }
  }
  \<close>
  Beside the result the model returns what the helper did, in order: a call of \<^verbatim>\<open>fn\<close>
  with its outcome (\<open>Attempt\<close>) or a timer of so many milliseconds (\<open>Wait\<close>).
\<close>

datatype 'a event = Attempt "js_error + 'a" | Wait int

function withRetry :: "('w \<Rightarrow> (js_error + 'a) \<times> 'w) \<Rightarrow> int \<Rightarrow> int \<Rightarrow> 'w
    \<Rightarrow> ((js_error + 'a) \<times> 'a event list) \<times> 'w" where
  "withRetry fn retries delay w =
     (case fn w of
        (Inr v, w') \<Rightarrow> ((Inr v, [Attempt (Inr v)]), w')
      | (Inl error, w') \<Rightarrow>
          if isInternal error \<and> 0 < retries
          then (case withRetry fn (retries - 1) (delay * 2) w' of
                  ((r, events), w'') \<Rightarrow> ((r, Attempt (Inl error) # Wait delay # events), w''))
          else ((Inl error, [Attempt (Inl error)]), w'))"
  by pat_completeness auto
termination
  by (relation "measure (\<lambda>(fn, retries, delay, w). nat retries)") auto

declare withRetry.simps [simp del]

subsection \<open>The embedding client\<close>

text \<open>The answer of the embedding endpoint, as far as it is read:
  \<^verbatim>\<open>response.embeddings?.[0]?.values\<close>.\<close>

record ContentEmbedding =
  values' :: "number list option"

record EmbedContentResponse =
  embeddings :: "ContentEmbedding list option"

text \<open>What the program asks of the outside world: the embedding endpoint
  (\<^verbatim>\<open>ai.models.embedContent\<close>), \<^verbatim>\<open>Math.random().toString(36)\<close> and \<^verbatim>\<open>Date.now()\<close>.\<close>

record 'w externals =
  embedContent :: "string \<Rightarrow> 'w \<Rightarrow> (js_error + EmbedContentResponse) \<times> 'w"
  random36 :: "'w \<Rightarrow> string \<times> 'w"
  now :: "'w \<Rightarrow> int \<times> 'w"

text \<open>\<^verbatim>\<open>response.embeddings?.[0]?.values || []\<close>\<close>

definition first_values :: "EmbedContentResponse \<Rightarrow> number list" where
  "first_values response =
     (case embeddings response of
        None \<Rightarrow> []
      | Some [] \<Rightarrow> []
      | Some (e # _) \<Rightarrow> (case values' e of None \<Rightarrow> [] | Some v \<Rightarrow> v))"

text \<open>
  \<^verbatim>\<open>
  export const getEmbedding = async (text: string): Promise<number[]> => {
    const ai = getAiClient();
    try {
      return await withRetry(async () => {
          const response = await ai.models.embedContent({ model: EMBEDDING_MODEL,
              contents: [{ parts: [{ text }] }] });
          return response.embeddings?.[0]?.values || [];
      });
    } catch (error: any) {
      console.error("Embedding failed:", error);
      return [];
    }
  };
  \<close>
  The result type keeps the rejected promise (\<open>Inl\<close>) that the callers provide for; the
  construction of the client is taken to succeed.
\<close>

definition getEmbedding :: "'w externals \<Rightarrow> string \<Rightarrow> 'w \<Rightarrow> (js_error + number list) \<times> 'w" where
  "getEmbedding ext text' w =
     (case withRetry
             (\<lambda>w. case embedContent ext text' w of
                     (Inl e, w') \<Rightarrow> (Inl e, w')
                   | (Inr response, w') \<Rightarrow> (Inr (first_values response), w'))
             3 1000 w of
        ((Inr v, events), w') \<Rightarrow> (Inr v, w')
      | ((Inl error, events), w') \<Rightarrow> (Inr [], w'))"

subsection \<open>The vector store\<close>

record VectorDocument =
  id' :: string
  text' :: string
  source :: string
  category :: string
  embedding :: "number list"
  timestamp :: int

text \<open>A listener is a function value, compared by identity (\<^verbatim>\<open>l !== listener\<close>): the type
  \<open>'l\<close> is that identity. What a listener does when it is called is the caller's code: it
  is the oracle \<open>call\<close>, which takes the listener and the world and returns or throws. A
  listener is taken not to call back into the store while it runs.\<close>

record 'l VectorStore =
  documents :: "VectorDocument list"
  listeners :: "'l list"

text \<open>
  \<^verbatim>\<open>
  subscribe(listener: Listener): () => void {
      this.listeners.push(listener);
      return () => { this.listeners = this.listeners.filter(l => l !== listener); };
  }
  \<close>
  The returned closure is a function on the state of the store at the time it is called.
\<close>

definition unsubscribe :: "'l \<Rightarrow> 'l VectorStore \<Rightarrow> 'l VectorStore" where
  "unsubscribe listener st = st\<lparr>listeners := filter (\<lambda>l. l \<noteq> listener) (listeners st)\<rparr>"

definition subscribe :: "'l \<Rightarrow> 'l VectorStore \<Rightarrow> 'l VectorStore \<times> ('l VectorStore \<Rightarrow> 'l VectorStore)" where
  "subscribe listener st = (st\<lparr>listeners := listeners st @ [listener]\<rparr>, unsubscribe listener)"

text \<open>\<^verbatim>\<open>private notify() { this.listeners.forEach(l => l()); }\<close>: the listeners are called in
  the order of the array, each registration once; the first call that throws ends the
  iteration, and \<^verbatim>\<open>notify\<close> throws what it threw.\<close>

fun forEach_call :: "('l \<Rightarrow> 'w \<Rightarrow> (js_error + unit) \<times> 'w) \<Rightarrow> 'l list \<Rightarrow> 'w
    \<Rightarrow> (js_error + unit) \<times> 'w" where
  "forEach_call call [] w = (Inr (), w)"
| "forEach_call call (l # ls) w =
     (case call l w of
        (Inl thrown, w') \<Rightarrow> (Inl thrown, w')
      | (Inr u, w') \<Rightarrow> forEach_call call ls w')"

definition notify :: "('l \<Rightarrow> 'w \<Rightarrow> (js_error + unit) \<times> 'w) \<Rightarrow> 'l VectorStore \<Rightarrow> 'w
    \<Rightarrow> (js_error + unit) \<times> 'w" where
  "notify call st w = forEach_call call (listeners st) w"

text \<open>
  \<^verbatim>\<open>
  async addDocument(text: string, source: string, category: string): Promise<number> {
      const chunks = this.chunkText(text, 500);
      let successCount = 0;
      for (const chunk of chunks) {
          try {
              const embedding = await getEmbedding(chunk);
              if (embedding.length > 0) {
                  const doc: VectorDocument = {
                      id: Math.random().toString(36).substring(7),
                      text: chunk, source, category, embedding,
                      timestamp: Date.now()
                  };
                  this.documents.push(doc);
                  successCount++;
              }
          } catch (err) {
              console.warn(`Failed to embed chunk from ${source}:`, err);
          }
      }
      if (successCount > 0) { this.notify(); }
      return successCount;
  }
  \<close>
  The state of the loop is the success count, the documents of the store and the world.
  The call of \<^verbatim>\<open>notify\<close> stands after the loop and outside its \<^verbatim>\<open>try\<close>: what a listener
  throws rejects the promise of \<^verbatim>\<open>addDocument\<close>, after the entries are stored.
  One call of \<^verbatim>\<open>addDocument\<close> runs at a time.
\<close>

fun addDocument_loop :: "'w externals \<Rightarrow> string \<Rightarrow> string \<Rightarrow> string list
    \<Rightarrow> nat \<times> VectorDocument list \<times> 'w \<Rightarrow> nat \<times> VectorDocument list \<times> 'w" where
  "addDocument_loop ext src cat [] state = state"
| "addDocument_loop ext src cat (chunk # chunks) (successCount, docs, w) =
     (case getEmbedding ext chunk w of
        (Inr embedding', w1) \<Rightarrow>
          if length embedding' > 0
          then (case random36 ext w1 of (r, w2) \<Rightarrow>
                  (case now ext w2 of (t, w3) \<Rightarrow>
                     addDocument_loop ext src cat chunks
                       (successCount + 1,
                        docs @ [\<lparr>id' = substring r 7, text' = chunk, source = src, category = cat,
                                 embedding = embedding', timestamp = t\<rparr>],
                        w3)))
          else addDocument_loop ext src cat chunks (successCount, docs, w1)
      | (Inl err, w1) \<Rightarrow>
          addDocument_loop ext src cat chunks (successCount, docs, w1))"

text \<open>The result of \<^verbatim>\<open>addDocument\<close>: the outcome of the promise (the count, or what was
  thrown), the store and the world. \<open>None\<close> is a run that does not return.\<close>

record ('l, 'w) addDocument_result =
  returned :: "js_error + nat"
  store :: "'l VectorStore"
  world :: 'w

definition addDocument :: "'w externals \<Rightarrow> ('l \<Rightarrow> 'w \<Rightarrow> (js_error + unit) \<times> 'w)
    \<Rightarrow> string \<Rightarrow> string \<Rightarrow> string \<Rightarrow> 'l VectorStore \<Rightarrow> 'w
    \<Rightarrow> ('l, 'w) addDocument_result option" where
  "addDocument ext call body src cat st w =
     (case chunkText body 500 of
        None \<Rightarrow> None
      | Some chunks \<Rightarrow>
          (case addDocument_loop ext src cat chunks (0, documents st, w) of
             (successCount, docs, w') \<Rightarrow>
               if successCount > 0
               then (case notify call (st\<lparr>documents := docs\<rparr>) w' of
                       (Inl thrown, w'') \<Rightarrow>
                         Some \<lparr>returned = Inl thrown, store = st\<lparr>documents := docs\<rparr>, world = w''\<rparr>
                     | (Inr u, w'') \<Rightarrow>
                         Some \<lparr>returned = Inr successCount, store = st\<lparr>documents := docs\<rparr>,
                               world = w''\<rparr>)
               else Some \<lparr>returned = Inr successCount, store = st\<lparr>documents := docs\<rparr>,
                          world = w'\<rparr>))"

text \<open>
  \<^verbatim>\<open>
  async similaritySearch(query: string, topK: number = 3): Promise<VectorDocument[]> {
      const queryEmbedding = await getEmbedding(query);
      if (queryEmbedding.length === 0) return [];
      const scoredDocs = this.documents.map(doc => ({
          doc, score: this.cosineSimilarity(queryEmbedding, doc.embedding) }));
      // Sort by score descending
      scoredDocs.sort((a, b) => b.score - a.score);
      return scoredDocs.slice(0, topK).map(sd => sd.doc);
  }
  \<close>
  A scored document is the pair of \<^verbatim>\<open>doc\<close> and \<^verbatim>\<open>score\<close>.
\<close>

definition scoredDocs :: "number list \<Rightarrow> VectorDocument list \<Rightarrow> (VectorDocument \<times> number) list" where
  "scoredDocs queryEmbedding docs =
     map (\<lambda>doc. (doc, cosineSimilarity queryEmbedding (embedding doc))) docs"

definition by_score_desc :: "VectorDocument \<times> number \<Rightarrow> VectorDocument \<times> number \<Rightarrow> number" where
  "by_score_desc a b = num_sub (snd b) (snd a)"

definition similaritySearch :: "'w externals \<Rightarrow> string \<Rightarrow> int \<Rightarrow> 'l VectorStore \<Rightarrow> 'w
    \<Rightarrow> (js_error + VectorDocument list) \<times> 'w" where
  "similaritySearch ext query topK st w =
     (case getEmbedding ext query w of
        (Inl err, w') \<Rightarrow> (Inl err, w')
      | (Inr queryEmbedding, w') \<Rightarrow>
          if length queryEmbedding = 0 then (Inr [], w')
          else (Inr (map fst (slice (sort_by by_score_desc
                                       (scoredDocs queryEmbedding (documents st))) 0 topK)),
                w'))"

text \<open>
  \<^verbatim>\<open>
  getStats() {
      return {
          totalDocuments: this.documents.length,
          categories: [...new Set(this.documents.map(d => d.category))]
      };
  }
  \<close>
  A \<^verbatim>\<open>Set\<close> built from an array holds each value once, in the order of insertion.
\<close>

record stats =
  totalDocuments :: nat
  categories :: "string list"

definition set_values :: "'a list \<Rightarrow> 'a list" where
  "set_values xs = fold (\<lambda>x seen. if x \<in> set seen then seen else seen @ [x]) xs []"

definition getStats :: "'l VectorStore \<Rightarrow> stats" where
  "getStats st = \<lparr>totalDocuments = length (documents st),
                  categories = set_values (map category (documents st))\<rparr>"

text \<open>A session: calls of \<^verbatim>\<open>addDocument\<close> on the one store, each with its text, source and
  category, one after the other; the caller goes on to the next call whether the promise
  was fulfilled or rejected.\<close>

fun session :: "'w externals \<Rightarrow> ('l \<Rightarrow> 'w \<Rightarrow> (js_error + unit) \<times> 'w)
    \<Rightarrow> (string \<times> string \<times> string) list \<Rightarrow> 'l VectorStore \<Rightarrow> 'w
    \<Rightarrow> ('l VectorStore \<times> 'w) option" where
  "session ext call [] st w = Some (st, w)"
| "session ext call ((body, src, cat) # calls) st w =
     (case addDocument ext call body src cat st w of
        None \<Rightarrow> None
      | Some r \<Rightarrow> session ext call calls (store r) (world r))"

subsection \<open>The provider router: intent and configuration\<close>

text \<open>The enumeration \<^verbatim>\<open>ChatPersona\<close> is declared in \<^verbatim>\<open>types.ts\<close>, which is not among the
  sources (nor is the interface \<^verbatim>\<open>VectorDocument\<close> above, whose fields are those of the object
  that \<^verbatim>\<open>addDocument\<close> builds); its members are the keys of \<^verbatim>\<open>PERSONA_PROMPTS\<close>.\<close>

datatype ChatPersona = GENERAL | RESEARCHER | CREATIVE | ANALYST | VISUAL_CREATOR | CUSTOM

definition MODEL_NAME :: string where
  "MODEL_NAME = ''gemini-3-flash-preview''"

definition MAPS_MODEL :: string where
  "MAPS_MODEL = ''gemini-2.5-flash''"

definition IMAGE_MODEL :: string where
  "IMAGE_MODEL = ''gemini-3-pro-image-preview''"

definition BASE_SYSTEM_INSTRUCTION :: string where
  "BASE_SYSTEM_INSTRUCTION =
     ''You are InferMate AI. '' @ [CHR 0x0A] @
     ''Safety Rules: Do not generate hate speech, harmful content, or biased information.'' @ [CHR 0x0A] @
     ''Objective: Be helpful, accurate, and concise.''"

fun PERSONA_PROMPTS :: "ChatPersona \<Rightarrow> string" where
  "PERSONA_PROMPTS GENERAL = BASE_SYSTEM_INSTRUCTION @ '' You are a helpful general assistant.''"
| "PERSONA_PROMPTS RESEARCHER = BASE_SYSTEM_INSTRUCTION @
     '' You are an academic researcher. Cite sources, be objective, and use formal language.''"
| "PERSONA_PROMPTS CREATIVE = BASE_SYSTEM_INSTRUCTION @
     '' You are a creative writer. Be expressive, imaginative, and engaging.''"
| "PERSONA_PROMPTS ANALYST = BASE_SYSTEM_INSTRUCTION @
     '' You are a data analyst. Focus on facts, patterns, and structured data outputs.''"
| "PERSONA_PROMPTS VISUAL_CREATOR = BASE_SYSTEM_INSTRUCTION @
     '' You are a Visual Tool User. '' @ [CHR 0x0A] @
     ''  If the user asks for a video or animation and provides NO image, I will automatically:'' @ [CHR 0x0A] @
     ''  1. Enhance their prompt with visual details.'' @ [CHR 0x0A] @
     ''  2. Generate a reference image.'' @ [CHR 0x0A] @
     ''  3. Create a video from that image.'' @ [CHR 0x0A] @
     ''  '' @ [CHR 0x0A] @
     ''  If they want just an image, I use the generate_image tool.'' @ [CHR 0x0A] @
     ''  If they upload an image, I guide them to animate it.''"
| "PERSONA_PROMPTS CUSTOM = BASE_SYSTEM_INSTRUCTION @ '' You are a custom persona.''"

text \<open>An entry of the \<^verbatim>\<open>tools\<close> array: \<^verbatim>\<open>{ functionDeclarations: [...] }\<close> with the names of
  the declared functions, \<^verbatim>\<open>{ googleMaps: {} }\<close> or \<^verbatim>\<open>{ googleSearch: {} }\<close>.\<close>

datatype tool = FunctionDeclarations "string list" | GoogleMaps | GoogleSearch

definition generateImageTool :: string where
  "generateImageTool = ''generate_image''"

text \<open>Strings of the router are over 8-bit characters. \<^verbatim>\<open>toLowerCase\<close> maps the letters
  \<^verbatim>\<open>A\<close> to \<^verbatim>\<open>Z\<close>; a word character of a regular expression is a letter, a digit or \<^verbatim>\<open>_\<close>;
  \<^verbatim>\<open>.\<close> matches every character but a line terminator.\<close>

definition toLowerCase :: "string \<Rightarrow> string" where
  "toLowerCase s =
     map (\<lambda>c. case map_of (zip ''ABCDEFGHIJKLMNOPQRSTUVWXYZ'' ''abcdefghijklmnopqrstuvwxyz'') c of
                 None \<Rightarrow> c | Some l \<Rightarrow> l) s"

definition isWordChar :: "char \<Rightarrow> bool" where
  "isWordChar c =
     (c \<in> set ''abcdefghijklmnopqrstuvwxyzABCDEFGHIJKLMNOPQRSTUVWXYZ0123456789_'')"

definition isLineTerminator :: "char \<Rightarrow> bool" where
  "isLineTerminator c = (c = CHR 0x0A \<or> c = CHR 0x0D)"

text \<open>The assertion \<^verbatim>\<open>\b\<close> at position \<open>k\<close> of \<open>s\<close>: exactly one of the characters before and
  after the position is a word character.\<close>

definition wordBoundary :: "string \<Rightarrow> nat \<Rightarrow> bool" where
  "wordBoundary s k =
     ((0 < k \<and> k \<le> length s \<and> isWordChar (s ! (k - 1))) \<noteq> (k < length s \<and> isWordChar (s ! k)))"

text \<open>\<^verbatim>\<open>\bw\b\<close> matches at position \<open>k\<close>.\<close>

definition wordAt :: "string \<Rightarrow> nat \<Rightarrow> string \<Rightarrow> bool" where
  "wordAt s k w =
     (wordBoundary s k \<and> take (length w) (drop k s) = w \<and> wordBoundary s (k + length w))"

text \<open>\<^verbatim>\<open>s.match(/\b(w1|...|wn)\b/)\<close> is not null.\<close>

definition matchesWord :: "string list \<Rightarrow> string \<Rightarrow> bool" where
  "matchesWord ws s = list_ex (\<lambda>k. list_ex (wordAt s k) ws) [0..<Suc (length s)]"

text \<open>\<^verbatim>\<open>s.match(/\b(v1|...|vn)\b.*\b(n1|...|nm)\b/)\<close> is not null: a first word at \<open>i\<close>, a second
  word at some \<open>j\<close> behind it, and no line terminator between them.\<close>

definition matchesWordThenWord :: "string list \<Rightarrow> string list \<Rightarrow> string \<Rightarrow> bool" where
  "matchesWordThenWord vs ns s =
     list_ex (\<lambda>i. list_ex (\<lambda>v. wordAt s i v \<and>
        list_ex (\<lambda>j. list_all (\<lambda>c. \<not> isLineTerminator c)
                          (take (j - (i + length v)) (drop (i + length v) s))
                      \<and> list_ex (wordAt s j) ns)
                [i + length v..<Suc (length s)]) vs)
       [0..<Suc (length s)]"

text \<open>
  \<^verbatim>\<open>
  const isMapIntent = query.toLowerCase().includes("map") || query.toLowerCase().includes("location")
      || query.toLowerCase().includes("path") || query.toLowerCase().includes("where is");
  const isVideoRequest = query.toLowerCase().match(/\b(video|animate|movie|motion)\b/);
  const isImageRequest = query.toLowerCase()
      .match(/\b(generate|create|draw|make)\b.*\b(image|picture|photo|art)\b/);
  \<close>
\<close>

definition isMapIntent :: "string \<Rightarrow> bool" where
  "isMapIntent query =
     (includes_str (toLowerCase query) ''map'' \<or> includes_str (toLowerCase query) ''location''
      \<or> includes_str (toLowerCase query) ''path'' \<or> includes_str (toLowerCase query) ''where is'')"

definition isVideoRequest :: "string \<Rightarrow> bool" where
  "isVideoRequest query =
     matchesWord [''video'', ''animate'', ''movie'', ''motion''] (toLowerCase query)"

definition isImageRequest :: "string \<Rightarrow> bool" where
  "isImageRequest query =
     matchesWordThenWord [''generate'', ''create'', ''draw'', ''make'']
       [''image'', ''picture'', ''photo'', ''art''] (toLowerCase query)"

text \<open>The attached document, and the three variables that the first part of \<^verbatim>\<open>chatHybrid\<close>
  sets.\<close>

record document =
  content :: string
  mimeType :: string
  isBinary :: bool

record selection =
  selectedModel :: string
  tools :: "tool list"
  systemInstruction :: string

text \<open>A string that a condition takes for true: present and not empty.\<close>

fun truthy :: "string option \<Rightarrow> bool" where
  "truthy None = False"
| "truthy (Some s) = (s \<noteq> [])"

text \<open>\<^verbatim>\<open>s || d\<close> for a string \<open>s\<close> that may be absent: \<open>d\<close> when \<open>s\<close> is absent or empty.\<close>

fun or_else :: "string option \<Rightarrow> string \<Rightarrow> string" where
  "or_else None d = d"
| "or_else (Some s) d = (if s = [] then d else s)"

text \<open>
  The configuration with which \<^verbatim>\<open>chatHybrid\<close> reaches the call of the chat endpoint (the
  statements between \<^verbatim>\<open>// 1. Determine Model & Tools\<close> and \<^verbatim>\<open>// RAG & Doc Injection\<close>, without
  the video chain, which returns before):
  \<^verbatim>\<open>
  let selectedModel = MODEL_NAME; let tools: any[] = [];
  let systemInstruction = PERSONA_PROMPTS[persona];
  if (persona === ChatPersona.CUSTOM && customPersonaInstruction) {
      systemInstruction = `${BASE_SYSTEM_INSTRUCTION}\n\n[CUSTOM PERSONA INSTRUCTION]\n${customPersonaInstruction}`;
  }
  if (persona === ChatPersona.VISUAL_CREATOR) {
      selectedModel = IMAGE_MODEL;
      tools = [{ functionDeclarations: [generateImageTool] }];
      ...
  }
  if (isMapIntent) {
      selectedModel = MAPS_MODEL;
      tools = [{ googleMaps: {} }];
      systemInstruction += `\nUse Google Maps to verify locations. ...`;
  }
  else if (!document && persona !== ChatPersona.VISUAL_CREATOR) {
      if (isImageRequest) { tools = [{ functionDeclarations: [generateImageTool] }]; }
      else { tools = [{ googleSearch: {} }]; }
  }
  \<close>
\<close>

definition configure :: "string \<Rightarrow> document option \<Rightarrow> ChatPersona \<Rightarrow> string option \<Rightarrow> selection" where
  "configure query doc persona customPersonaInstruction =
     (let s0 = \<lparr>selectedModel = MODEL_NAME, tools = [],
                systemInstruction =
                  (if persona = CUSTOM \<and> truthy customPersonaInstruction
                   then BASE_SYSTEM_INSTRUCTION @ [CHR 0x0A, CHR 0x0A] @
                        ''[CUSTOM PERSONA INSTRUCTION]'' @ [CHR 0x0A] @
                        or_else customPersonaInstruction []
                   else PERSONA_PROMPTS persona)\<rparr>;
          s1 = (if persona = VISUAL_CREATOR
                then s0\<lparr>selectedModel := IMAGE_MODEL,
                        tools := [FunctionDeclarations [generateImageTool]]\<rparr>
                else s0)
      in if isMapIntent query
         then s1\<lparr>selectedModel := MAPS_MODEL, tools := [GoogleMaps],
                 systemInstruction := systemInstruction s1 @ [CHR 0x0A] @
                   ''Use Google Maps to verify locations. For historical queries (like Ramayana), first find the modern equivalent of the place name, then use Google Maps to show the location.''\<rparr>
         else if doc = None \<and> persona \<noteq> VISUAL_CREATOR
         then (if isImageRequest query
               then s1\<lparr>tools := [FunctionDeclarations [generateImageTool]]\<rparr>
               else s1\<lparr>tools := [GoogleSearch]\<rparr>)
         else s1)"

subsection \<open>The provider router: the call and its recovery\<close>

text \<open>The conversation history (\<^verbatim>\<open>Content[]\<close>), a message sent to a chat, and the answer of the
  chat endpoint as far as it is read: \<^verbatim>\<open>response.text\<close>, \<^verbatim>\<open>response.functionCalls\<close> and
  \<^verbatim>\<open>response.candidates?.[0]?.groundingMetadata?.groundingChunks\<close>.\<close>

datatype part = TextPart string | InlineDataPart string string

record Content =
  role :: string
  parts :: "part list"

datatype message = TextMessage string | FunctionResponseMessage string string

record function_call =
  name :: string
  prompt :: string
  size' :: "string option"

record grounding_ref =
  uri :: "string option"
  title :: "string option"

record grounding_chunk =
  web :: "grounding_ref option"
  maps :: "grounding_ref option"

record chat_response =
  response_text :: "string option"
  functionCalls :: "function_call list option"
  groundingChunks :: "grounding_chunk list option"

text \<open>What \<^verbatim>\<open>chatHybrid\<close> returns: \<^verbatim>\<open>{ text, sources?, generatedImage?, mapData?,
  generatedVideo? }\<close>; a source is a pair of \<^verbatim>\<open>uri\<close> and \<^verbatim>\<open>title\<close>.\<close>

record chat_result =
  result_text :: string
  sources :: "(string \<times> string) list option"
  generatedImage :: "string option"
  mapData :: "string list option"
  generatedVideo :: "string option"

text \<open>
  What the router asks of the outside world. \<^verbatim>\<open>sendMessage\<close> is a message sent to a chat
  created with a model, a system instruction, tools and a history
  (\<^verbatim>\<open>ai.chats.create({ model, config: { systemInstruction, tools }, history })\<close>).
  \<^verbatim>\<open>ensureApiKey\<close>, \<^verbatim>\<open>generateImage\<close> (prompt and size) and the video chain of the visual persona
  (enhance the prompt, generate a still image, animate it; it returns a result or throws)
  are functions of the same file that consist of calls of the backends; no statement below
  is about what they do, and they are oracles here.
\<close>

record 'w chat_externals =
  ensureApiKey :: "'w \<Rightarrow> (js_error + unit) \<times> 'w"
  videoChain :: "string \<Rightarrow> 'w \<Rightarrow> (js_error + chat_result) \<times> 'w"
  generateImage :: "string \<Rightarrow> string option \<Rightarrow> 'w \<Rightarrow> (js_error + string option) \<times> 'w"
  sendMessage :: "string \<Rightarrow> string \<Rightarrow> tool list \<Rightarrow> Content list \<Rightarrow> message \<Rightarrow> 'w
                    \<Rightarrow> (js_error + chat_response) \<times> 'w"

text \<open>\<^verbatim>\<open>new Error("PAYMENT_REQUIRED")\<close>, the condition that the callers test for with
  \<^verbatim>\<open>e.message === "PAYMENT_REQUIRED"\<close>.\<close>

definition PAYMENT_REQUIRED :: js_error where
  "PAYMENT_REQUIRED = \<lparr>status = None, code = None, message = Some ''PAYMENT_REQUIRED''\<rparr>"

text \<open>\<^verbatim>\<open>error.message?.includes(s)\<close> as a condition.\<close>

definition message_includes :: "js_error \<Rightarrow> string \<Rightarrow> bool" where
  "message_includes error s = (case message error of None \<Rightarrow> False | Some m \<Rightarrow> includes_str m s)"

text \<open>\<^verbatim>\<open>Array.prototype.join\<close>.\<close>

fun join :: "string list \<Rightarrow> string \<Rightarrow> string" where
  "join [] sep = []"
| "join [x] sep = x"
| "join (x # y # ys) sep = x @ sep @ join (y # ys) sep"

text \<open>
  The loop over the function calls of the answer. Its state is \<^verbatim>\<open>text\<close> and
  \<^verbatim>\<open>generatedImage\<close>; \<open>Inl\<close> is the error thrown out of the loop.
  \<^verbatim>\<open>
  for (const call of functionCalls) {
      if (call.name === 'generate_image') {
          const args = call.args as any;
          text += `\n\n(Generating image for: "${args.prompt}" at ${args.size || '1K'})...`;
          try {
              const imgData = await generateImage(args.prompt, args.size);
              if (imgData) {
                  generatedImage = imgData;
                  await chat.sendMessage({ message: [{ functionResponse: {
                      name: 'generate_image', response: { result: 'Image generated successfully.' } } }] });
              }
          } catch(e: any) {
              if (e.message === "PAYMENT_REQUIRED") throw e;
              text += "\n[Image Generation Failed: Please try again]";
          }
      }
  }
  \<close>
\<close>

fun handleFunctionCalls :: "'w chat_externals \<Rightarrow> string \<Rightarrow> string \<Rightarrow> tool list \<Rightarrow> Content list
    \<Rightarrow> function_call list \<Rightarrow> string \<times> string option \<Rightarrow> 'w
    \<Rightarrow> (js_error + string \<times> string option) \<times> 'w" where
  "handleFunctionCalls ext mdl sys tls hist [] state w = (Inr state, w)"
| "handleFunctionCalls ext mdl sys tls hist (call # calls) (text0, image0) w =
     (if name call = ''generate_image''
      then (let text1 = text0 @ [CHR 0x0A, CHR 0x0A] @ ''(Generating image for: '' @ [CHR 0x22] @
                          prompt call @ [CHR 0x22] @ '' at '' @ or_else (size' call) ''1K'' @ '')...'';
                failed = [CHR 0x0A] @ ''[Image Generation Failed: Please try again]''
            in case generateImage ext (prompt call) (size' call) w of
                 (Inl e, w1) \<Rightarrow>
                   if message e = Some ''PAYMENT_REQUIRED'' then (Inl e, w1)
                   else handleFunctionCalls ext mdl sys tls hist calls (text1 @ failed, image0) w1
               | (Inr imgData, w1) \<Rightarrow>
                   if truthy imgData
                   then (case sendMessage ext mdl sys tls hist
                                 (FunctionResponseMessage ''generate_image''
                                    ''Image generated successfully.'') w1 of
                           (Inl e, w2) \<Rightarrow>
                             if message e = Some ''PAYMENT_REQUIRED'' then (Inl e, w2)
                             else handleFunctionCalls ext mdl sys tls hist calls
                                    (text1 @ failed, imgData) w2
                         | (Inr response, w2) \<Rightarrow>
                             handleFunctionCalls ext mdl sys tls hist calls (text1, imgData) w2)
                   else handleFunctionCalls ext mdl sys tls hist calls (text1, image0) w1)
      else handleFunctionCalls ext mdl sys tls hist calls (text0, image0) w)"

text \<open>
  \<^verbatim>\<open>
  groundingChunks.forEach((chunk: any) => {
      if (chunk.web?.uri) { sources.push({ uri: chunk.web.uri, title: chunk.web.title || "Web Source" }); }
      const mapInfo = chunk.maps;
      if (mapInfo?.uri) { sources.push({ uri: mapInfo.uri, title: mapInfo.title || "Map Location" }); }
  });
  \<close>
\<close>

definition source_of :: "grounding_ref option \<Rightarrow> string \<Rightarrow> (string \<times> string) list" where
  "source_of ref fallback =
     (case ref of
        None \<Rightarrow> []
      | Some r \<Rightarrow>
          (case uri r of
             None \<Rightarrow> []
           | Some u \<Rightarrow> if u = [] then [] else [(u, or_else (title r) fallback)]))"

definition groundingSources :: "grounding_chunk list \<Rightarrow> (string \<times> string) list" where
  "groundingSources chunks =
     concat (map (\<lambda>chunk. source_of (web chunk) ''Web Source'' @ source_of (maps chunk) ''Map Location'')
               chunks)"

text \<open>
  The body of the \<^verbatim>\<open>try\<close> block: the chat is created, the query is sent and the answer is
  parsed. \<open>Inl\<close> is what the \<^verbatim>\<open>catch\<close> clause receives.
  \<^verbatim>\<open>
  const chat = ai.chats.create({ model: selectedModel, config: { systemInstruction, tools },
                                 history: apiHistory });
  const response = await chat.sendMessage({ message: query });
  let text = response.text || ""; let generatedImage = undefined;
  let sources: any[] = []; let mapData: any[] = [];
  const functionCalls = response.functionCalls;
  if (functionCalls && functionCalls.length > 0) { for (const call of functionCalls) ... }
  const groundingChunks = response.candidates?.[0]?.groundingMetadata?.groundingChunks;
  if (groundingChunks) { groundingChunks.forEach(...); }
  return { text, sources, generatedImage, mapData };
  \<close>
\<close>

definition attempt :: "'w chat_externals \<Rightarrow> string \<Rightarrow> string \<Rightarrow> tool list \<Rightarrow> Content list
    \<Rightarrow> string \<Rightarrow> 'w \<Rightarrow> (js_error + chat_result) \<times> 'w" where
  "attempt ext mdl sys tls hist query w =
     (case sendMessage ext mdl sys tls hist (TextMessage query) w of
        (Inl e, w1) \<Rightarrow> (Inl e, w1)
      | (Inr response, w1) \<Rightarrow>
          (case handleFunctionCalls ext mdl sys tls hist
                  (case functionCalls response of None \<Rightarrow> [] | Some calls \<Rightarrow> calls)
                  (or_else (response_text response) [], None) w1 of
             (Inl e, w2) \<Rightarrow> (Inl e, w2)
           | (Inr (text1, img), w2) \<Rightarrow>
               (Inr \<lparr>result_text = text1,
                     sources = Some (case groundingChunks response of
                                       None \<Rightarrow> [] | Some chunks \<Rightarrow> groundingSources chunks),
                     generatedImage = img, mapData = Some [], generatedVideo = None\<rparr>, w2)))"

text \<open>
  The \<^verbatim>\<open>catch\<close> clause:
  \<^verbatim>\<open>
  } catch (error: any) {
    if (error.status === 403 || error.message?.includes("PERMISSION_DENIED")) {
         // Fallback: If tools were used, retry without tools
         if (tools && tools.length > 0) {
             console.warn("Permission denied with tools. Retrying without tools...");
             const ai = getAiClient();
             const fallbackChat = ai.chats.create({ model: selectedModel,
                config: { systemInstruction, tools: [] }, // Remove tools
                history: apiHistory });
             const response = await fallbackChat.sendMessage({ message: query });
             return { text: response.text || "" };
         }
         // If still 403 or no tools were used, assume Payment Required for model access
         throw new Error("PAYMENT_REQUIRED");
    }
    if (error.message === "PAYMENT_REQUIRED" || error.message?.includes('404')) {
        throw new Error("PAYMENT_REQUIRED");
    }
    console.error("Chat Error:", error);
    return { text: "Error connecting to AI. Please try again." };
  }
  \<close>
\<close>

definition text_only :: "string \<Rightarrow> chat_result" where
  "text_only t = \<lparr>result_text = t, sources = None, generatedImage = None, mapData = None,
                  generatedVideo = None\<rparr>"

definition recover :: "'w chat_externals \<Rightarrow> string \<Rightarrow> string \<Rightarrow> tool list \<Rightarrow> Content list
    \<Rightarrow> string \<Rightarrow> js_error \<Rightarrow> 'w \<Rightarrow> (js_error + chat_result) \<times> 'w" where
  "recover ext mdl sys tls hist query error w =
     (if status error = Some 403 \<or> message_includes error ''PERMISSION_DENIED''
      then (if length tls > 0
            then (case sendMessage ext mdl sys [] hist (TextMessage query) w of
                    (Inl e, w1) \<Rightarrow> (Inl e, w1)
                  | (Inr response, w1) \<Rightarrow>
                      (Inr (text_only (or_else (response_text response) [])), w1))
            else (Inl PAYMENT_REQUIRED, w))
      else if message error = Some ''PAYMENT_REQUIRED'' \<or> message_includes error ''404''
      then (Inl PAYMENT_REQUIRED, w)
      else (Inr (text_only ''Error connecting to AI. Please try again.''), w))"

text \<open>
  \<^verbatim>\<open>chatHybrid\<close> from \<^verbatim>\<open>// RAG & Doc Injection\<close> on: the system instruction and the query are
  completed, the document is put in front of the history, and the call is made.
  \<^verbatim>\<open>
  if (ragContext) systemInstruction += `\n\n[RAG CONTEXT]\n${ragContext}`;
  if (document) systemInstruction += `\n\n[DOCUMENT CONTEXT]\nAnalyze the uploaded document.`;
  if (links && links.length > 0) query += `\n\nRefer to: ${links.join(', ')}`;
  const apiHistory: Content[] = [...chatHistory];
  if (document) {
      const docPart: Part = document.isBinary
          ? { inlineData: { mimeType: document.mimeType, data: document.content } }
          : { text: `[DOCUMENT]\n${document.content}` };
      apiHistory.unshift({ role: 'user', parts: [docPart, { text: "Context Document" }] });
      apiHistory.unshift({ role: 'model', parts: [{ text: "Document received." }] });
  }
  try { ... } catch (error: any) { ... }
  \<close>
\<close>

definition converse :: "'w chat_externals \<Rightarrow> string \<Rightarrow> Content list \<Rightarrow> document option
    \<Rightarrow> string list option \<Rightarrow> ChatPersona \<Rightarrow> string option \<Rightarrow> string option \<Rightarrow> 'w
    \<Rightarrow> (js_error + chat_result) \<times> 'w" where
  "converse ext query chatHistory doc links persona ragContext customPersonaInstruction w =
     (let sel = configure query doc persona customPersonaInstruction;
          sys1 = (if truthy ragContext
                  then systemInstruction sel @ [CHR 0x0A, CHR 0x0A] @ ''[RAG CONTEXT]'' @ [CHR 0x0A] @
                       or_else ragContext []
                  else systemInstruction sel);
          sys2 = (if doc \<noteq> None
                  then sys1 @ [CHR 0x0A, CHR 0x0A] @ ''[DOCUMENT CONTEXT]'' @ [CHR 0x0A] @
                       ''Analyze the uploaded document.''
                  else sys1);
          query1 = (case links of
                      None \<Rightarrow> query
                    | Some ls \<Rightarrow> if length ls > 0
                                then query @ [CHR 0x0A, CHR 0x0A] @ ''Refer to: '' @ join ls '', ''
                                else query);
          apiHistory = (case doc of
                          None \<Rightarrow> chatHistory
                        | Some d \<Rightarrow>
                            \<lparr>role = ''model'', parts = [TextPart ''Document received.'']\<rparr> #
                            \<lparr>role = ''user'',
                             parts = [if isBinary d then InlineDataPart (mimeType d) (content d)
                                      else TextPart (''[DOCUMENT]'' @ [CHR 0x0A] @ content d),
                                      TextPart ''Context Document'']\<rparr> #
                            chatHistory)
      in case attempt ext (selectedModel sel) sys2 (tools sel) apiHistory query1 w of
           (Inr result, w1) \<Rightarrow> (Inr result, w1)
         | (Inl error, w1) \<Rightarrow>
             recover ext (selectedModel sel) sys2 (tools sel) apiHistory query1 error w1)"

text \<open>
  \<^verbatim>\<open>chatHybrid\<close>: the visual persona asks for the key and, for a video request without a
  document, runs the video chain, which ends the call; every other call goes on to the chat.
  \<^verbatim>\<open>
  if (persona === ChatPersona.VISUAL_CREATOR) {
      selectedModel = IMAGE_MODEL;
      tools = [{ functionDeclarations: [generateImageTool] }];
      await ensureApiKey();
      const isVideoRequest = ...;
      if (isVideoRequest && !document) { try { ... return ...; } catch (e: any) { ... } }
  }
  \<close>
\<close>

definition chatHybrid :: "'w chat_externals \<Rightarrow> string \<Rightarrow> Content list \<Rightarrow> document option
    \<Rightarrow> string list option \<Rightarrow> ChatPersona \<Rightarrow> string option \<Rightarrow> string option \<Rightarrow> 'w
    \<Rightarrow> (js_error + chat_result) \<times> 'w" where
  "chatHybrid ext query chatHistory doc links persona ragContext customPersonaInstruction w =
     (if persona = VISUAL_CREATOR
      then (case ensureApiKey ext w of
              (Inl e, w1) \<Rightarrow> (Inl e, w1)
            | (Inr u, w1) \<Rightarrow>
                if isVideoRequest query \<and> doc = None
                then videoChain ext query w1
                else converse ext query chatHistory doc links persona ragContext
                       customPersonaInstruction w1)
      else converse ext query chatHistory doc links persona ragContext customPersonaInstruction w)"

subsection \<open>Notions of the statements\<close>

text \<open>The attempt on one fragment, as the specification words it: embed the fragment; on
  success (a non-empty vector) a new entry with the fragment, the source, the category, the
  vector, a fresh id and the time; on failure no entry. And the entries of a sequence of
  such outcomes.\<close>

definition attempt_fragment :: "'w externals \<Rightarrow> string \<Rightarrow> string \<Rightarrow> string \<Rightarrow> 'w
    \<Rightarrow> VectorDocument option \<times> 'w" where
  "attempt_fragment ext src cat fragment w =
     (case getEmbedding ext fragment w of
        (Inl err, w1) \<Rightarrow> (None, w1)
      | (Inr v, w1) \<Rightarrow>
          if v = [] then (None, w1)
          else (case random36 ext w1 of (r, w2) \<Rightarrow>
                  (case now ext w2 of (t, w3) \<Rightarrow>
                     (Some \<lparr>id' = substring r 7, text' = fragment, source = src, category = cat,
                            embedding = v, timestamp = t\<rparr>, w3))))"

fun appended :: "'a option list \<Rightarrow> 'a list" where
  "appended [] = []"
| "appended (None # outcomes) = appended outcomes"
| "appended (Some d # outcomes) = d # appended outcomes"

text \<open>The number of fragments of 500 code units of a text.\<close>

definition fragment_count :: "string \<Rightarrow> nat" where
  "fragment_count body = (length body + 499) div 500"


text \<open>The fragments from offset \<open>i\<close> on, as a total function: a device of the proof.\<close>

function chunks_from :: "'a list \<Rightarrow> nat \<Rightarrow> nat \<Rightarrow> 'a list list" where
  "chunks_from t s i =
     (if 0 < s \<and> i < length t then take s (drop i t) # chunks_from t s (i + s) else [])"
  by pat_completeness auto
termination
  by (relation "measure (\<lambda>(t, s, i). length t - i)") auto

declare chunks_from.simps [simp del]

text \<open>The values of a list, each at its first occurrence.\<close>

fun firsts :: "'a list \<Rightarrow> 'a list" where
  "firsts [] = []"
| "firsts (x # xs) = x # filter (\<lambda>y. y \<noteq> x) (firsts xs)"

subsection \<open>Vectors of finite numbers\<close>

text \<open>The dot product and the Euclidean norm of vectors of reals: the terms in which the
  statements speak of \<open>dot(a,b) / (\<parallel>a\<parallel> \<sqdot> \<parallel>b\<parallel>)\<close>.\<close>

definition dot :: "real list \<Rightarrow> real list \<Rightarrow> real" where
  "dot a b = sum_list (map2 (*) a b)"

definition magnitude :: "real list \<Rightarrow> real" where
  "magnitude a = sqrt (dot a a)"

text \<open>The order \<^verbatim>\<open>a <= b\<close> of numbers (false when either is \<^verbatim>\<open>NaN\<close>), and the key by which
  the comparator of the search orders scored documents whose scores are finite.\<close>

fun num_le :: "number \<Rightarrow> number \<Rightarrow> bool" where
  "num_le (Num x) (Num y) = (x \<le> y)"
| "num_le NaN _ = False"
| "num_le _ NaN = False"
| "num_le NInf _ = True"
| "num_le _ PInf = True"
| "num_le PInf _ = False"
| "num_le (Num x) NInf = False"

fun real_of :: "number \<Rightarrow> real" where
  "real_of (Num x) = x"
| "real_of _ = 0"

definition neg_score :: "VectorDocument \<times> number \<Rightarrow> real" where
  "neg_score p = - real_of (snd p)"
subsection \<open>Worlds of the examples\<close>

text \<open>An embedding endpoint whose answer depends on the text alone: it rejects a text that
  begins with \<^verbatim>\<open>b\<close>, with a status that the retry helper does not retry, and answers any
  other text with the one-dimensional vector of its length. The world is the number of calls
  of the endpoint and the list of the listeners called. Three behaviours of the listeners:
  one that records the call in the world, one that does nothing, one that throws.\<close>

definition ext_by_text :: "(nat \<times> nat list) externals" where
  "ext_by_text =
     \<lparr>embedContent = (\<lambda>t (n, called).
         (if take 1 t = ''b'' then Inl \<lparr>status = Some 400, code = None, message = None\<rparr>
          else Inr \<lparr>embeddings = Some [\<lparr>values' = Some [Num (real (length t))]\<rparr>]\<rparr>,
          (n + 1, called))),
      random36 = (\<lambda>w. (''0.4fzyo82mvyr'', w)),
      now = (\<lambda>w. (1700000000000, w))\<rparr>"

definition recording :: "nat \<Rightarrow> nat \<times> nat list \<Rightarrow> (js_error + unit) \<times> (nat \<times> nat list)" where
  "recording l w = (Inr (), (fst w, snd w @ [l]))"

definition silent :: "'l \<Rightarrow> 'w \<Rightarrow> (js_error + unit) \<times> 'w" where
  "silent l w = (Inr (), w)"

definition listener_error :: js_error where
  "listener_error = \<lparr>status = None, code = None, message = Some ''render failed''\<rparr>"

definition throwing :: "'l \<Rightarrow> 'w \<Rightarrow> (js_error + unit) \<times> 'w" where
  "throwing l w = (Inl listener_error, w)"

text \<open>An embedding endpoint that is down: every call is rejected with status 503.\<close>

definition ext_down :: "unit externals" where
  "ext_down = \<lparr>embedContent = (\<lambda>t w. (Inl \<lparr>status = Some 503, code = None, message = None\<rparr>, w)),
               random36 = (\<lambda>w. (''0.4fzyo82mvyr'', w)),
               now = (\<lambda>w. (1700000000000, w))\<rparr>"

definition doc1 :: VectorDocument where
  "doc1 = \<lparr>id' = ''o82mvyr'', text' = ''Paris is the capital of France.'', source = ''kb'',
           category = ''Core'', embedding = [Num 1, Num 0], timestamp = 1700000000000\<rparr>"

text \<open>An embedding endpoint that answers every call with the vector \<open>(1, 0)\<close>, and a stored
  entry with a given id and embedding.\<close>

definition ext_q :: "unit externals" where
  "ext_q = \<lparr>embedContent = (\<lambda>t w. (Inr \<lparr>embeddings = Some [\<lparr>values' = Some [Num 1, Num 0]\<rparr>]\<rparr>, w)),
            random36 = (\<lambda>w. (''0.4fzyo82mvyr'', w)),
            now = (\<lambda>w. (1700000000000, w))\<rparr>"

definition entry :: "string \<Rightarrow> number list \<Rightarrow> VectorDocument" where
  "entry i v = \<lparr>id' = i, text' = ''fragment'', source = ''kb'', category = ''Core'',
               embedding = v, timestamp = 1700000000000\<rparr>"




text \<open>Two random sources; the world counts the draws. The draws 0.5 and 0.25 of the first
  print as \<^verbatim>\<open>0.i\<close> and \<^verbatim>\<open>0.9\<close> in base 36. The two draws of the second print with thirteen
  characters and differ after the seventh; \<open>ids_drawn n\<close> are the ids it has given after
  \<open>n\<close> draws, and \<open>draws_left n\<close> the number of draws it has left of these two.\<close>

definition ext_collide :: "nat externals" where
  "ext_collide = \<lparr>embedContent = (\<lambda>t n. (Inr \<lparr>embeddings = Some [\<lparr>values' = Some [Num 1, Num 0]\<rparr>]\<rparr>, n)),
                  random36 = (\<lambda>n. (if n = 0 then ''0.i'' else ''0.9'', n + 1)),
                  now = (\<lambda>n. (1700000000000, n))\<rparr>"

definition ext_two_draws :: "nat externals" where
  "ext_two_draws = \<lparr>embedContent = (\<lambda>t n. (Inr \<lparr>embeddings = Some [\<lparr>values' = Some [Num 1, Num 0]\<rparr>]\<rparr>, n)),
                    random36 = (\<lambda>n. (if n = 0 then ''0.4fzyo82mvyr'' else ''0.9x2k1q7tlbc'', n + 1)),
                    now = (\<lambda>n. (1700000000000, n))\<rparr>"

definition ids_drawn :: "nat \<Rightarrow> string set" where
  "ids_drawn n = (if n = 0 then {} else if n = 1 then {''82mvyr''} else {''82mvyr'', ''q7tlbc''})"

definition draws_left :: "nat \<Rightarrow> nat" where
  "draws_left n = 2 - n"

text \<open>A permission error of the chat endpoint, and two chat endpoints whose world is the list of
  the messages sent, each with the model and the tools of its chat: one that answers
  \<^verbatim>\<open>ok\<close>, and one that rejects every message with the permission error.\<close>

definition error_403 :: js_error where
  "error_403 = \<lparr>status = Some 403, code = None,
                 message = Some ''The caller does not have permission''\<rparr>"

definition ext_answer :: "(string \<times> tool list \<times> message) list chat_externals" where
  "ext_answer =
     \<lparr>ensureApiKey = (\<lambda>w. (Inr (), w)),
      videoChain = (\<lambda>query w. (Inr (text_only ''Video Generated''), w)),
      generateImage = (\<lambda>p s w. (Inr None, w)),
      sendMessage = (\<lambda>mdl sys tls hist msg w.
         (Inr \<lparr>response_text = Some ''ok'', functionCalls = None, groundingChunks = None\<rparr>,
          w @ [(mdl, tls, msg)]))\<rparr>"

definition ext_denied :: "(string \<times> tool list \<times> message) list chat_externals" where
  "ext_denied =
     \<lparr>ensureApiKey = (\<lambda>w. (Inr (), w)),
      videoChain = (\<lambda>query w. (Inr (text_only ''Video Generated''), w)),
      generateImage = (\<lambda>p s w. (Inr None, w)),
      sendMessage = (\<lambda>mdl sys tls hist msg w. (Inl error_403, w @ [(mdl, tls, msg)]))\<rparr>"

section \<open>Properties\<close>

subsection \<open>Slices\<close>

lemma slice_nat: "slice xs (int i) (int i + int n) = take n (drop i xs)"
proof (cases "i \<le> length xs")
  case True
  have "nat (int i + int n) = i + n" by (simp add: nat_int_add)
  with True show ?thesis
    by (auto simp: slice_def Let_def min_def nat_diff_distrib')
next
  case False
  then show ?thesis
    by (auto simp: slice_def Let_def min_def)
qed

lemma slice_zero: "0 \<le> k \<Longrightarrow> slice xs 0 k = take (nat k) xs"
  by (auto simp: slice_def Let_def min_def)

subsection \<open>The chunker returns, and what it returns\<close>

lemma chunkText_loop_returns:
  "0 < s \<Longrightarrow> chunkText_loop t s i acc = Some (acc @ chunks_from t s i)"
proof (induction "length t - i" arbitrary: i acc rule: less_induct)
  case less
  show ?case
  proof (cases "i < length t")
    case True
    with less.prems have "length t - (i + s) < length t - i" by arith
    from less.hyps [OF this less.prems]
    have "chunkText_loop t s (i + s) (acc @ [take s (drop i t)])
            = Some ((acc @ [take s (drop i t)]) @ chunks_from t s (i + s))" .
    with True less.prems show ?thesis
      by (subst chunkText_loop.simps, subst chunks_from.simps) (simp add: slice_nat)
  next
    case False
    then show ?thesis
      by (subst chunkText_loop.simps, subst chunks_from.simps) simp
  qed
qed

lemma chunkText_chunks_from: "0 < s \<Longrightarrow> chunkText t s = Some (chunks_from t s 0)"
  using chunkText_loop_returns [of s t 0 "[]"] by (simp add: chunkText_def)

lemma concat_chunks_from: "0 < s \<Longrightarrow> concat (chunks_from t s i) = drop i t"
proof (induction t s i rule: chunks_from.induct)
  case (1 t s i)
  show ?case
  proof (cases "i < length t")
    case True
    with 1 have "concat (chunks_from t s (i + s)) = drop (i + s) t" by simp
    moreover have "take s (drop i t) @ drop (i + s) t = drop i t"
      by (metis add.commute append_take_drop_id drop_drop)
    ultimately show ?thesis
      using True "1.prems" by (subst chunks_from.simps) simp
  next
    case False
    then show ?thesis by (subst chunks_from.simps) simp
  qed
qed

lemma nth_chunks_from:
  "k < length (chunks_from t s i) \<Longrightarrow> chunks_from t s i ! k = take s (drop (i + k * s) t)"
proof (induction t s i arbitrary: k rule: chunks_from.induct)
  case (1 t s i)
  from "1.prems" have a: "0 < s \<and> i < length t"
    by (subst (asm) chunks_from.simps) (simp split: if_splits)
  then have unf: "chunks_from t s i = take s (drop i t) # chunks_from t s (i + s)"
    by (subst chunks_from.simps) simp
  show ?case
  proof (cases k)
    case 0
    then show ?thesis by (simp add: unf)
  next
    case (Suc j)
    with "1.prems" unf have "j < length (chunks_from t s (i + s))" by simp
    from "1.IH" [OF a this] Suc show ?thesis
      by (simp add: unf add.assoc add.commute)
  qed
qed

lemma length_chunks_from:
  "0 < s \<Longrightarrow> length (chunks_from t s i) = (length t - i + s - 1) div s"
proof (induction t s i rule: chunks_from.induct)
  case (1 t s i)
  show ?case
  proof (cases "i < length t")
    case True
    with 1 have ih: "length (chunks_from t s (i + s)) = (length t - (i + s) + s - 1) div s"
      by simp
    show ?thesis
    proof (cases "i + s \<le> length t")
      case le: True
      define a where "a = length t - (i + s) + s - 1"
      from le have "length t - i + s - 1 = a + s"
        using "1.prems" unfolding a_def by arith
      moreover have "(a + s) div s = Suc (a div s)"
        using "1.prems" by simp
      ultimately have "(length t - i + s - 1) div s = Suc (a div s)"
        by (simp only:)
      with True "1.prems" ih show ?thesis
        unfolding a_def by (subst chunks_from.simps) simp
    next
      case gt: False
      then have "length t - (i + s) + s - 1 < s" using "1.prems" by arith
      moreover have "s \<le> length t - i + s - 1 \<and> length t - i + s - 1 < 2 * s"
        using gt True "1.prems" by arith
      then have "(length t - i + s - 1) div s = 1"
        by (intro div_nat_eqI) simp_all
      ultimately show ?thesis
        using True "1.prems" ih by (subst chunks_from.simps) simp
    qed
  next
    case False
    then show ?thesis
      using "1.prems" by (subst chunks_from.simps) simp
  qed
qed

lemma chunks_from_nonempty:
  "c \<in> set (chunks_from t s i) \<Longrightarrow> 0 < length c \<and> length c \<le> s"
proof (induction t s i rule: chunks_from.induct)
  case (1 t s i)
  from "1.prems" have a: "0 < s \<and> i < length t"
    by (subst (asm) chunks_from.simps) (simp split: if_splits)
  then have "chunks_from t s i = take s (drop i t) # chunks_from t s (i + s)"
    by (subst chunks_from.simps) simp
  with "1.prems" have "c = take s (drop i t) \<or> c \<in> set (chunks_from t s (i + s))"
    by simp
  then show ?case
  proof
    assume "c = take s (drop i t)"
    with a show ?thesis by simp
  next
    assume "c \<in> set (chunks_from t s (i + s))"
    with "1.IH" a show ?thesis by simp
  qed
qed

lemma chunks_from_full:
  assumes "Suc k < length (chunks_from t s i)"
  shows "length (chunks_from t s i ! k) = s"
proof -
  from assms have k: "k < length (chunks_from t s i)" by simp
  have "chunks_from t s i ! Suc k \<in> set (chunks_from t s i)"
    using assms by simp
  then have "0 < length (chunks_from t s i ! Suc k)"
    using chunks_from_nonempty by blast
  then have "i + Suc k * s < length t"
    by (simp add: nth_chunks_from [OF assms])
  then have "s \<le> length t - (i + k * s)" by simp
  then show ?thesis
    by (simp add: nth_chunks_from [OF k])
qed

text \<open>
  C2. For every text \<open>T\<close> and every chunk size \<open>S > 0\<close> the chunker returns (the loop
  ends), and the sequence it returns is the one sequence of consecutive slices of \<open>T\<close>: the
  \<open>k\<close>-th fragment is the \<open>S\<close> code units from offset \<open>k * S\<close>, so fragments do not
  overlap and leave no gap; their concatenation is \<open>T\<close>; every fragment is non-empty and at
  most \<open>S\<close> long, and every fragment but the last is exactly \<open>S\<close> long; the empty text has
  no fragment. The result is a function of \<open>T\<close> and \<open>S\<close> alone.
\<close>

theorem chunkText_partition:
  assumes "0 < S"
  shows "\<exists>cs. chunkText T S = Some cs
           \<and> concat cs = T
           \<and> length cs = (length T + S - 1) div S
           \<and> (\<forall>k<length cs. cs ! k = take S (drop (k * S) T))
           \<and> (\<forall>c\<in>set cs. 0 < length c \<and> length c \<le> S)
           \<and> (\<forall>k. Suc k < length cs \<longrightarrow> length (cs ! k) = S)
           \<and> (T = [] \<longrightarrow> cs = [])"
proof -
  let ?cs = "chunks_from T S 0"
  have ret: "chunkText T S = Some ?cs"
    using assms by (rule chunkText_chunks_from)
  have cat: "concat ?cs = T"
    using concat_chunks_from [OF assms, of T 0] by simp
  have len: "length ?cs = (length T + S - 1) div S"
    using length_chunks_from [OF assms, of T 0] by simp
  have nth: "\<forall>k<length ?cs. ?cs ! k = take S (drop (k * S) T)"
    using nth_chunks_from [of _ T S 0] by simp
  have bnd: "\<forall>c\<in>set ?cs. 0 < length c \<and> length c \<le> S"
    using chunks_from_nonempty [of _ T S 0] by blast
  have full: "\<forall>k. Suc k < length ?cs \<longrightarrow> length (?cs ! k) = S"
    using chunks_from_full [of _ T S 0] by blast
  have emp: "T = [] \<longrightarrow> ?cs = []"
    by (subst chunks_from.simps) simp
  from ret cat len nth bnd full emp show ?thesis by blast
qed

theorem chunkText_partition_witness:
  "0 < (2::nat) \<and> chunkText ''abcde'' 2 = Some [''ab'', ''cd'', ''e'']"
proof -
  from chunkText_partition [of 2 "''abcde''"]
  obtain cs where ret: "chunkText ''abcde'' 2 = Some cs"
    and len: "length cs = (length ''abcde'' + 2 - 1) div 2"
    and nth: "\<forall>k<length cs. cs ! k = take 2 (drop (k * 2) ''abcde'')"
    by auto
  from len have l3: "length cs = 3" by simp
  with nth have "cs ! 0 = ''ab''" "cs ! 1 = ''cd''" "cs ! 2 = ''e''" by simp_all
  with l3 have "cs = [''ab'', ''cd'', ''e'']"
    by (simp add: list_eq_iff_nth_eq less_Suc_eq numeral_3_eq_3 numeral_2_eq_2)
  with ret show ?thesis by simp
qed

subsection \<open>The retry helper, case by case\<close>

lemma getEmbedding_returns: "\<exists>v w'. getEmbedding ext t w = (Inr v, w')"
  unfolding getEmbedding_def by (auto split: prod.splits sum.splits)

lemma withRetry_all_fail:
  "(\<forall>w. \<exists>e w'. fn w = (Inl e, w')) \<Longrightarrow> \<exists>e evs w'. withRetry fn r d w = ((Inl e, evs), w')"
proof (induction fn r d w rule: withRetry.induct)
  case (1 fn retries delay w)
  from "1.prems" obtain e w1 where f: "fn w = (Inl e, w1)" by blast
  show ?case
  proof (cases "isInternal e \<and> 0 < retries")
    case True
    from "1.IH" [OF f [symmetric] refl True "1.prems"]
    obtain e' evs w2 where "withRetry fn (retries - 1) (delay * 2) w1 = ((Inl e', evs), w2)"
      by blast
    with f True show ?thesis
      by (subst withRetry.simps) simp
  next
    case False
    with f show ?thesis
      by (subst withRetry.simps) auto
  qed
qed

lemma withRetry_success:
  "fn w = (Inr v, w') \<Longrightarrow> withRetry fn r d w = ((Inr v, [Attempt (Inr v)]), w')"
  by (subst withRetry.simps) simp

lemma withRetry_raise:
  "fn w = (Inl e, w') \<Longrightarrow> \<not> (isInternal e \<and> 0 < r) \<Longrightarrow>
     withRetry fn r d w = ((Inl e, [Attempt (Inl e)]), w')"
  by (subst withRetry.simps) auto

lemma withRetry_again:
  "fn w = (Inl e, w') \<Longrightarrow> isInternal e \<Longrightarrow> 0 < r \<Longrightarrow>
     withRetry fn r d w =
       (case withRetry fn (r - 1) (d * 2) w' of
          ((res, events), w'') \<Rightarrow> ((res, Attempt (Inl e) # Wait d # events), w''))"
  by (subst withRetry.simps) simp

lemma similaritySearch_never_raises:
  "\<exists>ds w'. similaritySearch ext query topK st w = (Inr ds, w')"
proof -
  obtain v w' where "getEmbedding ext query w = (Inr v, w')"
    using getEmbedding_returns [of ext query w] by blast
  then show ?thesis by (simp add: similaritySearch_def)
qed

lemma similaritySearch_empty_corpus:
  assumes "documents st = []"
  shows "\<exists>w'. similaritySearch ext query topK st w = (Inr [], w')"
proof -
  obtain v w' where "getEmbedding ext query w = (Inr v, w')"
    using getEmbedding_returns [of ext query w] by blast
  with assms show ?thesis
    by (simp add: similaritySearch_def scoredDocs_def sort_by_def slice_def)
qed

lemma getEmbedding_failed_call:
  assumes "\<forall>w. \<exists>e w'. embedContent ext t w = (Inl e, w')"
  shows "\<exists>w'. getEmbedding ext t w = (Inr [], w')"
proof -
  let ?fn = "\<lambda>w. case embedContent ext t w of
                    (Inl e, w') \<Rightarrow> (Inl e, w')
                  | (Inr response, w') \<Rightarrow> (Inr (first_values response), w')"
  have "\<forall>w. \<exists>e w'. ?fn w = (Inl e, w')"
  proof
    fix w
    from assms obtain e w' where "embedContent ext t w = (Inl e, w')" by blast
    then show "\<exists>e w'. ?fn w = (Inl e, w')" by simp
  qed
  from withRetry_all_fail [OF this]
  obtain e evs w' where "withRetry ?fn 3 1000 w = ((Inl e, evs), w')" by blast
  then show ?thesis by (simp add: getEmbedding_def)
qed

lemma getEmbedding_absent:
  assumes "embedContent ext t w = (Inr response, w')" and "first_values response = []"
  shows "getEmbedding ext t w = (Inr [], w')"
  using assms by (simp add: getEmbedding_def withRetry_success)

text \<open>
  C4. \<^verbatim>\<open>similaritySearch\<close> returns the empty sequence, as a normal return, whenever the
  corpus is empty or the embedding of the query fails: \<^verbatim>\<open>getEmbedding\<close> gave the empty
  vector, which is what it gives when the endpoint rejects every attempt or answers
  without an embedding.
\<close>

theorem similaritySearch_empty:
  assumes "documents st = []
         \<or> (\<exists>w'. getEmbedding ext query w = (Inr [], w'))
         \<or> (\<forall>w. \<exists>e w'. embedContent ext query w = (Inl e, w'))
         \<or> (\<exists>response w'. embedContent ext query w = (Inr response, w')
                \<and> first_values response = [])"
  shows "\<exists>w'. similaritySearch ext query topK st w = (Inr [], w')"
proof -
  from assms consider (corpus) "documents st = []"
    | (embedding) "\<exists>w'. getEmbedding ext query w = (Inr [], w')"
    using getEmbedding_failed_call [of ext query w] getEmbedding_absent [of ext query w]
    by blast
  then show ?thesis
  proof cases
    case corpus
    then show ?thesis by (rule similaritySearch_empty_corpus)
  next
    case embedding
    then show ?thesis by (auto simp: similaritySearch_def)
  qed
qed

theorem similaritySearch_empty_witness:
  "(\<forall>w. \<exists>e w'. embedContent ext_down ''capital'' w = (Inl e, w'))
   \<and> (\<exists>w'. similaritySearch ext_down ''capital'' 3
              \<lparr>documents = [doc1], listeners = [] :: nat list\<rparr> () = (Inr [], w'))"
proof -
  have down: "\<forall>w. \<exists>e w'. embedContent ext_down ''capital'' w = (Inl e, w')"
    by (simp add: ext_down_def)
  from similaritySearch_empty
    [where ext = ext_down and query = "''capital''" and w = "()" and topK = 3
       and st = "\<lparr>documents = [doc1], listeners = [] :: nat list\<rparr>"] down
  show ?thesis by blast
qed

subsection \<open>Notifications\<close>

lemma forEach_call_cong:
  "(\<forall>x\<in>set ls. call x = call' x) \<Longrightarrow> forEach_call call ls w = forEach_call call' ls w"
  by (induction ls arbitrary: w) (auto split: prod.splits sum.splits)

lemma forEach_call_returns:
  assumes "\<forall>l w. \<exists>w'. call l w = (Inr (), w')"
  shows "forEach_call call ls w = (Inr (), fold (\<lambda>l w. snd (call l w)) ls w)"
proof (induction ls arbitrary: w)
  case Nil
  show ?case by simp
next
  case (Cons l ls)
  from assms obtain w' where "call l w = (Inr (), w')" by blast
  with Cons.IH [of w'] show ?case by simp
qed

lemma forEach_call_preserves:
  assumes "\<forall>l w. f (snd (call l w)) = f w"
  shows "f (snd (forEach_call call ls w)) = f w"
proof (induction ls arbitrary: w)
  case Nil
  show ?case by simp
next
  case (Cons l ls)
  obtain res w' where c: "call l w = (res, w')" by (cases "call l w")
  from assms have "f (snd (call l w)) = f w" by blast
  with c have "f w' = f w" by simp
  with c Cons.IH [of w'] show ?case by (cases res) simp_all
qed

subsection \<open>Indexing a document\<close>

lemma addDocument_loop_step:
  "attempt_fragment ext src cat chunk w = (outcome, w') \<Longrightarrow>
     addDocument_loop ext src cat (chunk # chunks) (n, docs, w)
       = addDocument_loop ext src cat chunks
           (n + length (appended [outcome]), docs @ appended [outcome], w')"
  by (auto simp: attempt_fragment_def split: prod.splits sum.splits if_splits)

lemma attempt_fragment_outcome:
  assumes "attempt_fragment ext src cat fragment w = (outcome, w')"
  shows "(outcome = None \<longrightarrow> fst (getEmbedding ext fragment w) = Inr [])
       \<and> (\<forall>d. outcome = Some d \<longrightarrow>
              fst (getEmbedding ext fragment w) = Inr (embedding d) \<and> embedding d \<noteq> []
            \<and> text' d = fragment \<and> source d = src \<and> category d = cat)"
proof -
  obtain v w1 where g: "getEmbedding ext fragment w = (Inr v, w1)"
    using getEmbedding_returns [of ext fragment w] by blast
  with assms show ?thesis
    by (auto simp: attempt_fragment_def split: prod.splits if_splits)
qed

lemma appended_Cons: "appended (outcome # outcomes) = appended [outcome] @ appended outcomes"
  by (cases outcome) simp_all

lemma addDocument_loop_attempts:
  "\<exists>outcomes ws.
      length outcomes = length chunks \<and> length ws = length chunks + 1 \<and> ws ! 0 = w
    \<and> (\<forall>k<length chunks.
          attempt_fragment ext src cat (chunks ! k) (ws ! k) = (outcomes ! k, ws ! (k + 1)))
    \<and> addDocument_loop ext src cat chunks (n, docs, w)
        = (n + length (appended outcomes), docs @ appended outcomes, ws ! length chunks)"
proof (induction chunks arbitrary: n docs w)
  case Nil
  show ?case by (rule exI [of _ "[]"], rule exI [of _ "[w]"]) simp
next
  case (Cons chunk chunks)
  obtain outcome w1 where a: "attempt_fragment ext src cat chunk w = (outcome, w1)"
    by (cases "attempt_fragment ext src cat chunk w")
  from Cons.IH [of w1 "n + length (appended [outcome])" "docs @ appended [outcome]"]
  obtain outcomes ws where ih:
    "length outcomes = length chunks" "length ws = length chunks + 1" "ws ! 0 = w1"
    "\<forall>k<length chunks.
        attempt_fragment ext src cat (chunks ! k) (ws ! k) = (outcomes ! k, ws ! (k + 1))"
    "addDocument_loop ext src cat chunks
        (n + length (appended [outcome]), docs @ appended [outcome], w1)
      = (n + length (appended [outcome]) + length (appended outcomes),
         (docs @ appended [outcome]) @ appended outcomes, ws ! length chunks)"
    by blast
  have steps: "\<forall>k<length (chunk # chunks).
      attempt_fragment ext src cat ((chunk # chunks) ! k) ((w # ws) ! k)
        = ((outcome # outcomes) ! k, (w # ws) ! (k + 1))"
  proof (intro allI impI)
    fix k assume k: "k < length (chunk # chunks)"
    show "attempt_fragment ext src cat ((chunk # chunks) ! k) ((w # ws) ! k)
        = ((outcome # outcomes) ! k, (w # ws) ! (k + 1))"
    proof (cases k)
      case 0
      with a ih(3) show ?thesis by simp
    next
      case (Suc j)
      with k ih(4) show ?thesis by simp
    qed
  qed
  have run: "addDocument_loop ext src cat (chunk # chunks) (n, docs, w)
      = (n + length (appended (outcome # outcomes)), docs @ appended (outcome # outcomes),
         (w # ws) ! length (chunk # chunks))"
    using addDocument_loop_step [OF a, of chunks n docs] ih(5)
    by (simp add: appended_Cons [of outcome outcomes])
  show ?case
    apply (rule exI [of _ "outcome # outcomes"])
    apply (rule exI [of _ "w # ws"])
    using ih(1,2) steps run by simp
qed

lemma addDocument_returns: "\<exists>r. addDocument ext call body src cat st w = Some r"
proof -
  obtain chunks where "chunkText body 500 = Some chunks"
    using chunkText_chunks_from [of 500 body] by simp
  then show ?thesis
    by (simp add: addDocument_def split: prod.splits sum.splits)
qed

text \<open>
  C1, as the code has it. For every text, source and category, every store and every
  behaviour of the embedding endpoint and of the listeners, \<^verbatim>\<open>addDocument\<close> settles. It
  makes one attempt for every fragment of the text, in order, each in the world that the
  attempt before it left, whatever the earlier attempts gave: the attempt number \<open>k\<close>
  calls \<^verbatim>\<open>getEmbedding\<close> on the fragment number \<open>k\<close>, and gives an entry exactly when the
  vector returned is not empty, with this fragment, this vector, the source and the
  category. The store grows by exactly the entries of the attempts that succeeded. When no
  attempt succeeds \<^verbatim>\<open>addDocument\<close> returns 0, calls no listener and leaves the store as it
  was. When at least one succeeds it notifies the listeners, and returns the number of
  successes if the notification returns; if a listener throws, the promise is rejected
  with what it threw, the entries being stored: the call of \<^verbatim>\<open>notify\<close> is not inside the
  \<^verbatim>\<open>try\<close>. So with listeners that never throw \<^verbatim>\<open>addDocument\<close> returns the number of
  fragments whose embedding succeeded, after calling every listener once per registration,
  in the order of registration. With one listener that throws and a text of one fragment
  that embeds, it stores the entry and rejects.
\<close>

theorem addDocument_counts_successes:
  "\<exists>r fragments outcomes ws.
      addDocument ext call body src cat st w = Some r
    \<and> chunkText body 500 = Some fragments
    \<and> length outcomes = length fragments \<and> length ws = length fragments + 1 \<and> ws ! 0 = w
    \<and> (\<forall>k<length fragments.
          attempt_fragment ext src cat (fragments ! k) (ws ! k) = (outcomes ! k, ws ! (k + 1))
        \<and> (outcomes ! k = None \<longrightarrow> fst (getEmbedding ext (fragments ! k) (ws ! k)) = Inr [])
        \<and> (\<forall>d. outcomes ! k = Some d \<longrightarrow>
               fst (getEmbedding ext (fragments ! k) (ws ! k)) = Inr (embedding d)
             \<and> embedding d \<noteq> [] \<and> text' d = fragments ! k
             \<and> source d = src \<and> category d = cat))
    \<and> store r = st\<lparr>documents := documents st @ appended outcomes\<rparr>
    \<and> (appended outcomes = [] \<longrightarrow>
          returned r = Inr 0 \<and> store r = st \<and> world r = ws ! length fragments)
    \<and> (appended outcomes \<noteq> [] \<longrightarrow>
          world r = snd (notify call (store r) (ws ! length fragments))
        \<and> returned r = (case fst (notify call (store r) (ws ! length fragments)) of
                          Inl thrown \<Rightarrow> Inl thrown
                        | Inr u \<Rightarrow> Inr (length (appended outcomes))))
    \<and> ((\<forall>l w. \<exists>w'. call l w = (Inr (), w')) \<longrightarrow>
          returned r = Inr (length (appended outcomes))
        \<and> (appended outcomes \<noteq> [] \<longrightarrow>
             world r = fold (\<lambda>l w. snd (call l w)) (listeners st) (ws ! length fragments)))"
proof -
  obtain fragments where ch: "chunkText body 500 = Some fragments"
    using chunkText_chunks_from [of 500 body] by simp
  from addDocument_loop_attempts [of fragments w ext src cat 0 "documents st"]
  obtain outcomes ws where att:
    "length outcomes = length fragments" "length ws = length fragments + 1" "ws ! 0 = w"
    "\<forall>k<length fragments.
        attempt_fragment ext src cat (fragments ! k) (ws ! k) = (outcomes ! k, ws ! (k + 1))"
    and run: "addDocument_loop ext src cat fragments (0, documents st, w)
        = (length (appended outcomes), documents st @ appended outcomes, ws ! length fragments)"
    by auto
  have each: "\<forall>k<length fragments.
          attempt_fragment ext src cat (fragments ! k) (ws ! k) = (outcomes ! k, ws ! (k + 1))
        \<and> (outcomes ! k = None \<longrightarrow> fst (getEmbedding ext (fragments ! k) (ws ! k)) = Inr [])
        \<and> (\<forall>d. outcomes ! k = Some d \<longrightarrow>
               fst (getEmbedding ext (fragments ! k) (ws ! k)) = Inr (embedding d)
             \<and> embedding d \<noteq> [] \<and> text' d = fragments ! k
             \<and> source d = src \<and> category d = cat)"
  proof (intro allI impI)
    fix k assume "k < length fragments"
    with att(4) have a: "attempt_fragment ext src cat (fragments ! k) (ws ! k)
        = (outcomes ! k, ws ! (k + 1))" by simp
    from a attempt_fragment_outcome [OF a]
    show "attempt_fragment ext src cat (fragments ! k) (ws ! k) = (outcomes ! k, ws ! (k + 1))
        \<and> (outcomes ! k = None \<longrightarrow> fst (getEmbedding ext (fragments ! k) (ws ! k)) = Inr [])
        \<and> (\<forall>d. outcomes ! k = Some d \<longrightarrow>
               fst (getEmbedding ext (fragments ! k) (ws ! k)) = Inr (embedding d)
             \<and> embedding d \<noteq> [] \<and> text' d = fragments ! k
             \<and> source d = src \<and> category d = cat)"
      by blast
  qed
  let ?st = "st\<lparr>documents := documents st @ appended outcomes\<rparr>"
  let ?w1 = "ws ! length fragments"
  obtain res w2 where n: "notify call ?st ?w1 = (res, w2)"
    by (cases "notify call ?st ?w1")
  let ?r = "if appended outcomes = []
            then \<lparr>returned = Inr 0, store = ?st, world = ?w1\<rparr>
            else \<lparr>returned = (case res of Inl thrown \<Rightarrow> Inl thrown
                                         | Inr u \<Rightarrow> Inr (length (appended outcomes))),
                  store = ?st, world = w2\<rparr>"
  have r: "addDocument ext call body src cat st w = Some ?r"
    using ch run n by (cases res) (simp_all add: addDocument_def)
  have quiet: "(\<forall>l w. \<exists>w'. call l w = (Inr (), w')) \<longrightarrow>
          returned ?r = Inr (length (appended outcomes))
        \<and> (appended outcomes \<noteq> [] \<longrightarrow>
             world ?r = fold (\<lambda>l w. snd (call l w)) (listeners st) ?w1)"
  proof
    assume "\<forall>l w. \<exists>w'. call l w = (Inr (), w')"
    from forEach_call_returns [OF this, of "listeners st" ?w1] n
    have "res = Inr ()" "w2 = fold (\<lambda>l w. snd (call l w)) (listeners st) ?w1"
      by (simp_all add: notify_def)
    then show "returned ?r = Inr (length (appended outcomes))
        \<and> (appended outcomes \<noteq> [] \<longrightarrow>
             world ?r = fold (\<lambda>l w. snd (call l w)) (listeners st) ?w1)"
      by simp
  qed
  have s: "store ?r = ?st" by simp
  have e: "appended outcomes = [] \<longrightarrow> returned ?r = Inr 0 \<and> store ?r = st \<and> world ?r = ?w1"
    by simp
  have f: "appended outcomes \<noteq> [] \<longrightarrow>
          world ?r = snd (notify call (store ?r) ?w1)
        \<and> returned ?r = (case fst (notify call (store ?r) ?w1) of
                          Inl thrown \<Rightarrow> Inl thrown
                        | Inr u \<Rightarrow> Inr (length (appended outcomes)))"
    using n by simp
  show ?thesis
    apply (rule exI [of _ ?r])
    apply (rule exI [of _ fragments])
    apply (rule exI [of _ outcomes])
    apply (rule exI [of _ ws])
    using r ch att(1,2,3) each s e f quiet by (intro conjI)
qed

lemma getEmbedding_by_text:
  "getEmbedding ext_by_text t (n, called)
     = (Inr (if take 1 t = ''b'' then [] else [Num (real (length t))]), (n + 1, called))"
  by (simp add: getEmbedding_def ext_by_text_def withRetry_success withRetry_raise isInternal_def
        first_values_def)

lemma by_text_draws:
  "random36 ext_by_text w = (''0.4fzyo82mvyr'', w)" "now ext_by_text w = (1700000000000, w)"
  by (simp_all add: ext_by_text_def)

lemma chunks_1200:
  "chunkText (replicate 500 CHR ''a'' @ replicate 500 CHR ''b'' @ replicate 200 CHR ''c'') 500
     = Some [replicate 500 CHR ''a'', replicate 500 CHR ''b'', replicate 200 CHR ''c'']"
proof -
  let ?t = "replicate 500 CHR ''a'' @ replicate 500 CHR ''b'' @ replicate 200 CHR ''c''"
  have "chunks_from ?t 500 1500 = []"
    by (subst chunks_from.simps) simp
  then have "chunks_from ?t 500 1000 = [replicate 200 CHR ''c'']"
    by (subst chunks_from.simps) simp
  then have "chunks_from ?t 500 500 = [replicate 500 CHR ''b'', replicate 200 CHR ''c'']"
    by (subst chunks_from.simps) simp
  then have "chunks_from ?t 500 0
      = [replicate 500 CHR ''a'', replicate 500 CHR ''b'', replicate 200 CHR ''c'']"
    by (subst chunks_from.simps) simp
  then show ?thesis by (simp add: chunkText_chunks_from)
qed

lemma chunkText_short:
  assumes "0 < length t" and "length t \<le> s"
  shows "chunkText t s = Some [t]"
proof -
  from assms have s: "0 < s" by (cases s) simp_all
  from assms have "chunks_from t s (0 + s) = []"
    by (subst chunks_from.simps) simp
  with assms s have "chunks_from t s 0 = [t]"
    by (subst chunks_from.simps) simp
  with s show ?thesis by (simp add: chunkText_chunks_from)
qed

theorem addDocument_counts_successes_counterexample:
  "map_option (\<lambda>r. (returned r, map text' (documents (store r))))
     (addDocument ext_by_text throwing ''Paris is the capital of France.'' ''kb'' ''Core''
        \<lparr>documents = [], listeners = [7 :: nat]\<rparr> (0, []))
   = Some (Inl listener_error, [''Paris is the capital of France.''])"
  by (simp add: addDocument_def chunkText_short getEmbedding_by_text by_text_draws notify_def
        throwing_def)

theorem addDocument_counts_successes_witness:
  "(\<forall>l w. \<exists>w'. recording l w = (Inr (), w'))
   \<and> addDocument ext_by_text recording
        (replicate 500 CHR ''a'' @ replicate 500 CHR ''b'' @ replicate 200 CHR ''c'') ''kb'' ''Core''
        \<lparr>documents = [], listeners = [7]\<rparr> (0, [])
     = Some \<lparr>returned = Inr 2,
             store = \<lparr>documents =
                        [\<lparr>id' = ''82mvyr'', text' = replicate 500 CHR ''a'', source = ''kb'',
                          category = ''Core'', embedding = [Num 500], timestamp = 1700000000000\<rparr>,
                         \<lparr>id' = ''82mvyr'', text' = replicate 200 CHR ''c'', source = ''kb'',
                          category = ''Core'', embedding = [Num 200], timestamp = 1700000000000\<rparr>],
                      listeners = [7]\<rparr>,
             world = (3, [7])\<rparr>"
proof -
  let ?body = "replicate 500 CHR ''a'' @ replicate 500 CHR ''b'' @ replicate 200 CHR ''c''"
  let ?st = "\<lparr>documents = [], listeners = [7 :: nat]\<rparr>"
  have quiet: "\<forall>l w. \<exists>w'. recording l w = (Inr (), w')"
    by (simp add: recording_def)
  from addDocument_counts_successes
    [where ext = ext_by_text and call = recording and body = ?body and src = "''kb''"
       and cat = "''Core''" and st = ?st and w = "(0, [])"] quiet
  obtain r outcomes where r: "addDocument ext_by_text recording ?body ''kb'' ''Core'' ?st (0, []) = Some r"
    and st: "store r = ?st\<lparr>documents := documents ?st @ appended outcomes\<rparr>"
    and ret: "returned r = Inr (length (appended outcomes))"
    by blast
  have "addDocument ext_by_text recording ?body ''kb'' ''Core'' ?st (0, [])
     = Some \<lparr>returned = Inr 2,
             store = \<lparr>documents =
                        [\<lparr>id' = ''82mvyr'', text' = replicate 500 CHR ''a'', source = ''kb'',
                          category = ''Core'', embedding = [Num 500], timestamp = 1700000000000\<rparr>,
                         \<lparr>id' = ''82mvyr'', text' = replicate 200 CHR ''c'', source = ''kb'',
                          category = ''Core'', embedding = [Num 200], timestamp = 1700000000000\<rparr>],
                      listeners = [7]\<rparr>,
             world = (3, [7])\<rparr>"
    by (simp add: addDocument_def chunks_1200 getEmbedding_by_text by_text_draws notify_def
          recording_def substring_def)
  with r st ret quiet show ?thesis by simp
qed

subsection \<open>Subscriptions\<close>

text \<open>
  C10. The function returned by \<^verbatim>\<open>subscribe\<close> removes every registration of its listener.
  When one listener \<open>l\<close> is subscribed twice, it is registered twice (a notification calls it
  two more times than before); either returned function, called once on that store or on
  any later state \<open>st'\<close> of the store, leaves no registration of \<open>l\<close>, so a notification
  does not call \<open>l\<close>: what it does and returns is the same whatever \<open>l\<close> would do if it were
  called. The two returned functions are the same function on stores, and the other
  listeners keep their registrations and their order.
\<close>

theorem unsubscribe_removes_every_registration:
  "(let (st1, unsub1) = subscribe l st; (st2, unsub2) = subscribe l st1 in
      count_list (listeners st2) l = count_list (listeners st) l + 2
    \<and> l \<notin> set (listeners (unsub1 st2))
    \<and> l \<notin> set (listeners (unsub2 st2))
    \<and> l \<notin> set (listeners (unsub1 st'))
    \<and> listeners (unsub1 st') = filter (\<lambda>x. x \<noteq> l) (listeners st')
    \<and> unsub2 = unsub1
    \<and> documents (unsub1 st') = documents st'
    \<and> (\<forall>f g. (\<forall>x. x \<noteq> l \<longrightarrow> f x = g x) \<longrightarrow>
          notify f (unsub1 st') w = notify g (unsub1 st') w)
    \<and> ((\<forall>x w. \<exists>w'. call x w = (Inr (), w')) \<longrightarrow>
          notify call st2 w = (Inr (), fold (\<lambda>x w. snd (call x w)) (listeners st @ [l, l]) w)
        \<and> notify call (unsub1 st2) w
            = (Inr (), fold (\<lambda>x w. snd (call x w)) (filter (\<lambda>x. x \<noteq> l) (listeners st)) w)))"
proof -
  have indep: "\<forall>f g. (\<forall>x. x \<noteq> l \<longrightarrow> f x = g x) \<longrightarrow>
      notify f (unsubscribe l st') w = notify g (unsubscribe l st') w"
  proof (intro allI impI)
    fix f g :: "'a \<Rightarrow> 'b \<Rightarrow> (js_error + unit) \<times> 'b"
    assume "\<forall>x. x \<noteq> l \<longrightarrow> f x = g x"
    then have "\<forall>x\<in>set (filter (\<lambda>x. x \<noteq> l) (listeners st')). f x = g x" by simp
    from forEach_call_cong [OF this]
    show "notify f (unsubscribe l st') w = notify g (unsubscribe l st') w"
      by (simp add: notify_def unsubscribe_def)
  qed
  have calls: "(\<forall>x w. \<exists>w'. call x w = (Inr (), w')) \<longrightarrow>
      notify call (st\<lparr>listeners := listeners st @ [l, l]\<rparr>) w
        = (Inr (), fold (\<lambda>x w. snd (call x w)) (listeners st @ [l, l]) w)
    \<and> notify call (unsubscribe l (st\<lparr>listeners := listeners st @ [l, l]\<rparr>)) w
        = (Inr (), fold (\<lambda>x w. snd (call x w)) (filter (\<lambda>x. x \<noteq> l) (listeners st)) w)"
  proof
    assume q: "\<forall>x w. \<exists>w'. call x w = (Inr (), w')"
    show "notify call (st\<lparr>listeners := listeners st @ [l, l]\<rparr>) w
        = (Inr (), fold (\<lambda>x w. snd (call x w)) (listeners st @ [l, l]) w)
      \<and> notify call (unsubscribe l (st\<lparr>listeners := listeners st @ [l, l]\<rparr>)) w
        = (Inr (), fold (\<lambda>x w. snd (call x w)) (filter (\<lambda>x. x \<noteq> l) (listeners st)) w)"
      using forEach_call_returns [OF q, of "listeners st @ [l, l]" w]
        forEach_call_returns [OF q, of "filter (\<lambda>x. x \<noteq> l) (listeners st)" w]
      by (simp add: notify_def unsubscribe_def)
  qed
  from indep calls show ?thesis
    by (simp add: subscribe_def unsubscribe_def)
qed

theorem unsubscribe_removes_every_registration_witness:
  "(\<forall>x w. \<exists>w'. recording x w = (Inr (), w'))
   \<and> notify recording
       (fst (subscribe 1 (fst (subscribe 1 \<lparr>documents = [], listeners = [2]\<rparr>)))) (0, [])
     = (Inr (), (0, [2, 1, 1]))
   \<and> notify recording
       (snd (subscribe 1 \<lparr>documents = [], listeners = [2]\<rparr>)
          (fst (subscribe 1 (fst (subscribe 1 \<lparr>documents = [], listeners = [2]\<rparr>))))) (0, [])
     = (Inr (), (0, [2]))
   \<and> notify (\<lambda>x. if x = 1 then throwing x else recording x)
       (snd (subscribe 1 \<lparr>documents = [], listeners = [2]\<rparr>)
          (fst (subscribe 1 (fst (subscribe 1 \<lparr>documents = [], listeners = [2]\<rparr>))))) (0, [])
     = (Inr (), (0, [2]))"
proof -
  let ?st = "\<lparr>documents = [], listeners = [2 :: nat]\<rparr>"
  let ?st2 = "\<lparr>documents = [], listeners = [2, 1, 1 :: nat]\<rparr>"
  have quiet: "\<forall>x w. \<exists>w'. recording x w = (Inr (), w')"
    by (simp add: recording_def)
  note removes = unsubscribe_removes_every_registration
    [where l = "1 :: nat" and st = ?st and call = recording and w = "(0, [])" and st' = ?st2]
  from removes quiet
  have twice: "notify recording ?st2 (0, []) = (Inr (), (0, [2, 1, 1]))"
    and gone: "notify recording (unsubscribe 1 ?st2) (0, []) = (Inr (), (0, [2]))"
    by (simp_all add: subscribe_def unsubscribe_def recording_def)
  from removes
  have "\<forall>f g. (\<forall>x. x \<noteq> 1 \<longrightarrow> f x = g x) \<longrightarrow>
          notify f (unsubscribe 1 ?st2) (0 :: nat, [] :: nat list)
            = notify g (unsubscribe 1 ?st2) (0, [])"
    by (simp add: subscribe_def)
  then have "notify (\<lambda>x. if x = 1 then throwing x else recording x) (unsubscribe 1 ?st2) (0, [])
      = notify recording (unsubscribe 1 ?st2) (0, [])"
    by simp
  with gone have unaffected: "notify (\<lambda>x. if x = 1 then throwing x else recording x) (unsubscribe 1 ?st2) (0, [])
      = (Inr (), (0, [2]))"
    by simp
  from quiet twice gone unaffected show ?thesis
    by (simp add: subscribe_def)
qed

subsection \<open>Cosine similarity on vectors of finite numbers\<close>

lemma dot_nth: "length a = length b \<Longrightarrow> dot a b = (\<Sum>i<length a. a ! i * b ! i)"
proof -
  assume l: "length a = length b"
  have "dot a b = (\<Sum>i = 0..<length (map2 (*) a b). map2 (*) a b ! i)"
    unfolding dot_def by (rule sum_list_sum_nth)
  also have "\<dots> = (\<Sum>i = 0..<length a. a ! i * b ! i)"
    using l by (intro sum.cong) simp_all
  finally show ?thesis by (simp add: atLeast0LessThan)
qed

lemma fold_cosine_step:
  "n \<le> length a \<Longrightarrow> n \<le> length b \<Longrightarrow>
     fold (cosine_step (map Num a) (map Num b)) [0..<n] (Num 0, Num 0, Num 0)
       = (Num (\<Sum>i<n. a ! i * b ! i), Num (\<Sum>i<n. a ! i * a ! i), Num (\<Sum>i<n. b ! i * b ! i))"
proof (induction n)
  case 0
  show ?case by simp
next
  case (Suc n)
  then show ?case
    by (simp add: cosine_step_def elem_def)
qed

lemma dot_self_nonneg: "0 \<le> dot a a"
  unfolding dot_def by (induction a) simp_all

lemma dot_self_zero: "dot a a = 0 \<Longrightarrow> length a = length b \<Longrightarrow> dot a b = 0"
proof (induction a arbitrary: b)
  case Nil
  then show ?case by (simp add: dot_def)
next
  case (Cons x xs)
  then obtain y ys where b: "b = y # ys" by (cases b) auto
  from Cons.prems(1) have "x * x + dot xs xs = 0" by (simp add: dot_def)
  moreover have "0 \<le> x * x" by simp
  ultimately have "x = 0 \<and> dot xs xs = 0"
    using dot_self_nonneg [of xs] by (smt (verit) mult_eq_0_iff)
  with Cons.IH [of ys] Cons.prems(2) b show ?case by (simp add: dot_def)
qed

lemma dot_commute: "dot a b = dot b a"
  unfolding dot_def
proof (induction a arbitrary: b)
  case Nil
  show ?case by simp
next
  case (Cons x xs)
  show ?case by (cases b) (simp_all add: Cons.IH mult.commute)
qed

lemma cosineSimilarity_finite:
  assumes "length a = length b"
  shows "cosineSimilarity (map Num a) (map Num b) =
           (if magnitude a = 0 \<or> magnitude b = 0 then NaN
            else Num (dot a b / (magnitude a * magnitude b)))"
proof -
  have f: "fold (cosine_step (map Num a) (map Num b)) [0..<length (map Num a)] (Num 0, Num 0, Num 0)
             = (Num (dot a b), Num (dot a a), Num (dot b b))"
    using fold_cosine_step [of "length a" a b] assms
    by (simp add: dot_nth)
  have nn: "\<not> dot a a < 0" "\<not> dot b b < 0"
    using dot_self_nonneg [of a] dot_self_nonneg [of b] by simp_all
  have z: "magnitude a = 0 \<or> magnitude b = 0 \<Longrightarrow> dot a b = 0"
    using dot_self_zero [of a b] dot_self_zero [of b a] dot_commute [of a b] assms
    by (auto simp: magnitude_def)
  show ?thesis
    unfolding cosineSimilarity_def f using nn z
    by (auto simp: magnitude_def)
qed

text \<open>
  C5, as the code has it. For every pair of vectors of finite numbers of one dimension of
  which at least one has zero magnitude, \<^verbatim>\<open>cosineSimilarity\<close> is \<^verbatim>\<open>NaN\<close>, and \<^verbatim>\<open>NaN\<close> is the
  score that the search attaches to the entry: the quotient \<open>0/0\<close> is not replaced by 0.
  At the vectors \<open>(0)\<close> and \<open>(1)\<close> the score is \<^verbatim>\<open>NaN\<close>, not 0.
\<close>

theorem cosineSimilarity_zero_magnitude:
  assumes "length a = length b" and "magnitude a = 0 \<or> magnitude b = 0"
  shows "cosineSimilarity (map Num a) (map Num b) = NaN
       \<and> (\<forall>d. embedding d = map Num b \<longrightarrow> scoredDocs (map Num a) [d] = [(d, NaN)])"
  using assms by (simp add: cosineSimilarity_finite scoredDocs_def)

theorem cosineSimilarity_zero_magnitude_counterexample:
  "cosineSimilarity [Num 0] [Num 1] = NaN \<and> cosineSimilarity [Num 0] [Num 1] \<noteq> Num 0"
  by (simp add: cosineSimilarity_def cosine_step_def elem_def)

theorem cosineSimilarity_zero_magnitude_witness:
  "length [0, 0 :: real] = length [3, 4 :: real] \<and> magnitude [0, 0] = 0
   \<and> cosineSimilarity (map Num [0, 0]) (map Num [3, 4]) = NaN"
proof -
  have m: "magnitude [0, 0] = 0" by (simp add: magnitude_def dot_def)
  from cosineSimilarity_zero_magnitude [of "[0, 0]" "[3, 4]"] m show ?thesis by simp
qed

subsection \<open>The sort under a consistent comparator\<close>

text \<open>When the comparator orders the elements as a key does (\<^verbatim>\<open>comparefn(x, y) < 0\<close> exactly when
  the key of \<open>x\<close> is below the key of \<open>y\<close>), the sort returns the stable sorted
  permutation, which is what the language asks of every engine in this case.\<close>

lemma BinaryInsertionSort_search_bounds:
  "sorted (map key run) \<Longrightarrow>
   \<forall>y\<in>set run. num_negative (Compare comparefn pivot y) = (key pivot < key y) \<Longrightarrow>
   left \<le> right \<Longrightarrow> right \<le> length run \<Longrightarrow>
     (\<forall>i<left. key (run ! i) \<le> key pivot) \<Longrightarrow>
     (\<forall>i. right \<le> i \<and> i < length run \<longrightarrow> key pivot < key (run ! i)) \<Longrightarrow>
     (let p = BinaryInsertionSort_search comparefn run pivot left right
      in p \<le> length run \<and> (\<forall>i<p. key (run ! i) \<le> key pivot)
       \<and> (\<forall>i. p \<le> i \<and> i < length run \<longrightarrow> key pivot < key (run ! i)))"
proof (induction comparefn run pivot left right rule: BinaryInsertionSort_search.induct)
  case (1 comparefn run pivot left right)
  show ?case
  proof (cases "left < right")
    case False
    with "1.prems"(3) have "left = right" by simp
    with "1.prems" False show ?thesis
      by (subst BinaryInsertionSort_search.simps) simp
  next
    case True
    define mid where "mid = left + (right - left) div 2"
    from True have m: "left \<le> mid" "mid < right" by (simp_all add: mid_def) 
    with "1.prems" have ml: "mid < length run" by simp
    from "1.prems"(2) ml have o: "num_negative (Compare comparefn pivot (run ! mid)) = (key pivot < key (run ! mid))"
      by simp
    have mono: "\<And>i j. i \<le> j \<Longrightarrow> j < length run \<Longrightarrow> key (run ! i) \<le> key (run ! j)"
      using "1.prems"(1) by (simp add: sorted_iff_nth_mono)
    show ?thesis
    proof (cases "key pivot < key (run ! mid)")
      case lt: True
      have a: "\<forall>i. mid \<le> i \<and> i < length run \<longrightarrow> key pivot < key (run ! i)"
        using lt mono by (meson less_le_trans)
      from "1.IH"(1) [OF True mid_def _ "1.prems"(1,2) _ _ "1.prems"(5) a] o lt m "1.prems"(4)
      have "let p = BinaryInsertionSort_search comparefn run pivot left mid
      in p \<le> length run \<and> (\<forall>i<p. key (run ! i) \<le> key pivot)
       \<and> (\<forall>i. p \<le> i \<and> i < length run \<longrightarrow> key pivot < key (run ! i))"
        by simp
      moreover have "BinaryInsertionSort_search comparefn run pivot left right
          = BinaryInsertionSort_search comparefn run pivot left mid"
        using True o lt by (subst BinaryInsertionSort_search.simps) (simp add: mid_def Let_def)
      ultimately show ?thesis by simp
    next
      case ge: False
      have a: "\<forall>i<mid + 1. key (run ! i) \<le> key pivot"
      proof (intro allI impI)
        fix i assume "i < mid + 1"
        then have "i \<le> mid" by simp
        from mono [OF this ml] ge show "key (run ! i) \<le> key pivot" by simp
      qed
      from "1.IH"(2) [OF True mid_def _ "1.prems"(1,2) _ "1.prems"(4) a "1.prems"(6)] o ge m "1.prems"(4)
      have "let p = BinaryInsertionSort_search comparefn run pivot (mid + 1) right
      in p \<le> length run \<and> (\<forall>i<p. key (run ! i) \<le> key pivot)
       \<and> (\<forall>i. p \<le> i \<and> i < length run \<longrightarrow> key pivot < key (run ! i))"
        by simp
      moreover have "BinaryInsertionSort_search comparefn run pivot left right
          = BinaryInsertionSort_search comparefn run pivot (mid + 1) right"
        using True o ge by (subst BinaryInsertionSort_search.simps) (simp add: mid_def Let_def)
      ultimately show ?thesis by simp
    qed
  qed
qed


lemma insertion_place:
  assumes srt: "sorted (map key run)"
    and ord: "\<forall>y\<in>set run. num_negative (Compare comparefn pivot y) = (key pivot < key y)"
  shows "\<exists>p\<le>length run. BinaryInsertionSort_search comparefn run pivot 0 (length run) = p
           \<and> (\<forall>y\<in>set (take p run). key y \<le> key pivot)
           \<and> (\<forall>y\<in>set (drop p run). key pivot < key y)"
proof -
  let ?p = "BinaryInsertionSort_search comparefn run pivot 0 (length run)"
  have "\<forall>i. length run \<le> i \<and> i < length run \<longrightarrow> key pivot < key (run ! i)" by auto
  from BinaryInsertionSort_search_bounds [OF srt ord _ _ _ this, of 0]
  have p: "?p \<le> length run" "\<forall>i<?p. key (run ! i) \<le> key pivot"
    "\<forall>i. ?p \<le> i \<and> i < length run \<longrightarrow> key pivot < key (run ! i)"
    by (simp_all add: Let_def)
  have "\<forall>y\<in>set (take ?p run). key y \<le> key pivot"
    using p(1,2) by (auto simp: in_set_conv_nth)
  moreover have "\<forall>y\<in>set (drop ?p run). key pivot < key y"
  proof
    fix y assume "y \<in> set (drop ?p run)"
    then obtain j where "j < length run - ?p" "y = run ! (?p + j)"
      by (auto simp: in_set_conv_nth)
    with p(3) show "key pivot < key y" by simp
  qed
  ultimately show ?thesis using p(1) by simp
qed

lemma BinaryInsertionSort_sorts:
  "sorted (map key run) \<Longrightarrow>
   \<forall>x\<in>set rest. \<forall>y\<in>set run \<union> set rest.
      num_negative (Compare comparefn x y) = (key x < key y) \<Longrightarrow>
   sorted (map key (BinaryInsertionSort comparefn run rest))
   \<and> mset (BinaryInsertionSort comparefn run rest) = mset run + mset rest
   \<and> (\<forall>k. filter (\<lambda>x. key x = k) (BinaryInsertionSort comparefn run rest)
            = filter (\<lambda>x. key x = k) run @ filter (\<lambda>x. key x = k) rest)"
proof (induction rest arbitrary: run)
  case Nil
  then show ?case by simp
next
  case (Cons pivot rest)
  from Cons.prems(2) have ord: "\<forall>y\<in>set run. num_negative (Compare comparefn pivot y) = (key pivot < key y)"
    by simp
  from insertion_place [OF Cons.prems(1) ord]
  obtain p where p: "p \<le> length run"
    "BinaryInsertionSort_search comparefn run pivot 0 (length run) = p"
    "\<forall>y\<in>set (take p run). key y \<le> key pivot" "\<forall>y\<in>set (drop p run). key pivot < key y"
    by blast
  let ?run = "take p run @ pivot # drop p run"
  have split: "run = take p run @ drop p run" by simp
  from Cons.prems(1) have "sorted (map key (take p run @ drop p run))" by simp
  then have st: "sorted (map key (take p run))" "sorted (map key (drop p run))"
    "\<forall>x\<in>set (take p run). \<forall>y\<in>set (drop p run). key x \<le> key y"
    unfolding map_append sorted_append by auto
  have s: "sorted (map key ?run)"
    unfolding map_append sorted_append using st p(3,4) by (auto simp: less_imp_le)
  have "mset (take p run) + mset (drop p run) = mset run"
    by (metis append_take_drop_id mset_append)
  then have m: "mset ?run = mset run + {#pivot#}"
    by simp
  have set_run: "set ?run = insert pivot (set run)"
    using arg_cong [OF m, of set_mset] by simp
  have o: "\<forall>x\<in>set rest. \<forall>y\<in>set ?run \<union> set rest.
      num_negative (Compare comparefn x y) = (key x < key y)"
    using Cons.prems(2) unfolding set_run by simp
  have f: "\<And>k. filter (\<lambda>x. key x = k) ?run = filter (\<lambda>x. key x = k) run @ filter (\<lambda>x. key x = k) [pivot]"
  proof -
    fix k
    have "filter (\<lambda>x. key x = k) run
        = filter (\<lambda>x. key x = k) (take p run) @ filter (\<lambda>x. key x = k) (drop p run)"
      by (metis append_take_drop_id filter_append)
    moreover have "key pivot = k \<Longrightarrow> filter (\<lambda>x. key x = k) (drop p run) = []"
      using p(4) by (auto simp: filter_empty_conv)
    ultimately show "filter (\<lambda>x. key x = k) ?run = filter (\<lambda>x. key x = k) run @ filter (\<lambda>x. key x = k) [pivot]"
      by simp
  qed
  from Cons.IH [OF s o]
  have ih: "sorted (map key (BinaryInsertionSort comparefn ?run rest))"
    "mset (BinaryInsertionSort comparefn ?run rest) = mset ?run + mset rest"
    "\<And>k. filter (\<lambda>x. key x = k) (BinaryInsertionSort comparefn ?run rest)
          = filter (\<lambda>x. key x = k) ?run @ filter (\<lambda>x. key x = k) rest"
    by blast+
  have step: "BinaryInsertionSort comparefn run (pivot # rest) = BinaryInsertionSort comparefn ?run rest"
    using p(2) by (simp add: Let_def)
  have 1: "sorted (map key (BinaryInsertionSort comparefn run (pivot # rest)))"
    unfolding step by (rule ih(1))
  have 2: "mset (BinaryInsertionSort comparefn run (pivot # rest)) = mset run + mset (pivot # rest)"
    unfolding step ih(2) m by simp
  have 3: "\<forall>k. filter (\<lambda>x. key x = k) (BinaryInsertionSort comparefn run (pivot # rest))
            = filter (\<lambda>x. key x = k) run @ filter (\<lambda>x. key x = k) (pivot # rest)"
  proof
    fix k
    have "filter (\<lambda>x. key x = k) (BinaryInsertionSort comparefn ?run rest)
        = filter (\<lambda>x. key x = k) ?run @ filter (\<lambda>x. key x = k) rest"
      by (rule ih(3))
    also have "filter (\<lambda>x. key x = k) ?run
        = filter (\<lambda>x. key x = k) run @ filter (\<lambda>x. key x = k) [pivot]"
      by (rule f)
    finally show "filter (\<lambda>x. key x = k) (BinaryInsertionSort comparefn run (pivot # rest))
            = filter (\<lambda>x. key x = k) run @ filter (\<lambda>x. key x = k) (pivot # rest)"
      unfolding step by simp
  qed
  from 1 2 3 show ?case by blast
qed

lemma CountAndMakeRun_loop_run:
  "\<forall>x\<in>set (previousElement # rest). \<forall>y\<in>set (previousElement # rest).
      num_negative (Compare comparefn x y) = (key x < key y) \<Longrightarrow>
   CountAndMakeRun_loop comparefn isDescending previousElement rest \<le> length rest
   \<and> (if isDescending
      then sorted_wrt (\<lambda>x y. key y < key x)
             (previousElement # take (CountAndMakeRun_loop comparefn isDescending previousElement rest) rest)
      else sorted (map key
             (previousElement # take (CountAndMakeRun_loop comparefn isDescending previousElement rest) rest)))"
proof (induction rest arbitrary: previousElement)
  case Nil
  show ?case by simp
next
  case (Cons currentElement rest)
  from Cons.prems have o: "num_negative (Compare comparefn currentElement previousElement)
      = (key currentElement < key previousElement)" by simp
  from Cons.prems have "\<forall>x\<in>set (currentElement # rest). \<forall>y\<in>set (currentElement # rest).
      num_negative (Compare comparefn x y) = (key x < key y)" by simp
  from Cons.IH [OF this] o show ?case
    by (auto simp: not_less) (meson less_trans order_trans)+
qed


lemma filter_rev_strict:
  assumes "sorted_wrt (\<lambda>x y. key y < key x) xs"
  shows "filter (\<lambda>x. key x = k) (rev xs) = filter (\<lambda>x. key x = (k :: 'k :: linorder)) xs"
proof -
  from assms have "length (filter (\<lambda>x. key x = k) xs) \<le> 1"
  proof (induction xs)
    case Nil
    show ?case by simp
  next
    case (Cons x xs)
    then have "key x = k \<Longrightarrow> filter (\<lambda>x. key x = k) xs = []"
      by (auto simp: filter_empty_conv)
    with Cons show ?case by auto
  qed
  then have "rev (filter (\<lambda>x. key x = k) xs) = filter (\<lambda>x. key x = k) xs"
    by (cases "filter (\<lambda>x. key x = k) xs") (auto simp: Suc_le_eq)
  then show ?thesis by (simp add: rev_filter)
qed

lemma sorted_rev_strict:
  assumes "sorted_wrt (\<lambda>x y. key y < key x) xs"
  shows "sorted (map key (rev xs :: 'a list) :: 'k :: linorder list)"
proof -
  from assms have "sorted_wrt (\<lambda>x y. key x < key y) (rev xs)"
    by (simp add: sorted_wrt_rev)
  then have "sorted_wrt (\<lambda>x y. key x \<le> key y) (rev xs)"
    by (rule sorted_wrt_mono_rel [rotated]) simp
  then show ?thesis by (simp add: sorted_map)
qed

lemma sort_by_sort_key:
  assumes ord: "\<forall>x\<in>set xs. \<forall>y\<in>set xs. num_negative (Compare comparefn x y) = (key x < key y)"
  shows "sort_by comparefn xs = sort_key key xs"
proof (cases xs)
  case Nil
  then show ?thesis by (simp add: sort_by_def)
next
  case (Cons elementHigh tail)
  show ?thesis
  proof (cases tail)
    case Nil
    with Cons show ?thesis by (simp add: sort_by_def)
  next
    case (Cons elementLow rest)
    with \<open>xs = elementHigh # tail\<close> have xs: "xs = elementHigh # elementLow # rest" by simp
    define isDescending where "isDescending = num_negative (Compare comparefn elementLow elementHigh)"
    define n where "n = CountAndMakeRun_loop comparefn isDescending elementLow rest"
    let ?pre = "elementHigh # elementLow # take n rest"
    from ord xs have d: "isDescending = (key elementLow < key elementHigh)"
      by (simp add: isDescending_def)
    from ord xs have "\<forall>x\<in>set (elementLow # rest). \<forall>y\<in>set (elementLow # rest).
        num_negative (Compare comparefn x y) = (key x < key y)" by simp
    note loop = CountAndMakeRun_loop_run [OF this, of isDescending, folded n_def]
    from loop have n: "n \<le> length rest" by (rule conjunct1)
    from loop have run: "if isDescending then sorted_wrt (\<lambda>x y. key y < key x) (elementLow # take n rest)
                else sorted (map key (elementLow # take n rest))"
      by (rule conjunct2)
    have pre: "take (2 + n) xs = ?pre" "drop (2 + n) xs = drop n rest"
      by (simp_all add: xs)
    let ?run = "if isDescending then rev ?pre else ?pre"
    have cm: "CountAndMakeRun comparefn xs = (?run @ drop n rest, 2 + n)"
      using pre by (simp add: CountAndMakeRun_def xs isDescending_def n_def Let_def)
    have len: "length ?run = 2 + n" using n by simp
    have l2: "\<not> length xs < 2" by (simp add: xs)
    have td: "take (2 + n) (?run @ drop n rest) = ?run" "drop (2 + n) (?run @ drop n rest) = drop n rest"
      using len by simp_all
    have "sort_by comparefn xs
        = (case CountAndMakeRun comparefn xs of
             (workArray, runLength) \<Rightarrow>
               BinaryInsertionSort comparefn (take runLength workArray) (drop runLength workArray))"
      using l2 by (simp add: sort_by_def)
    also have "\<dots> = BinaryInsertionSort comparefn (take (2 + n) (?run @ drop n rest))
                         (drop (2 + n) (?run @ drop n rest))"
      by (simp only: cm prod.case)
    also have "\<dots> = BinaryInsertionSort comparefn ?run (drop n rest)"
      by (simp only: td)
    finally have sb: "sort_by comparefn xs = BinaryInsertionSort comparefn ?run (drop n rest)" .
    have desc: "sorted_wrt (\<lambda>x y. key y < key x) ?pre" if isDescending
    proof -
      from that run have r: "sorted_wrt (\<lambda>x y. key y < key x) (elementLow # take n rest)"
        by simp
      from that d have "key elementLow < key elementHigh" by simp
      with r show ?thesis by (auto intro: less_trans)
    qed
    have asc: "sorted (map key ?pre)" if "\<not> isDescending"
    proof -
      from that run have r: "sorted (map key (elementLow # take n rest))"
        by simp
      from that d have "key elementHigh \<le> key elementLow" by simp
      with r show ?thesis by (auto intro: order_trans)
    qed
    have srt: "sorted (map key ?run)"
      using sorted_rev_strict [OF desc] asc by (cases isDescending) simp_all
    have fl: "\<And>k. filter (\<lambda>x. key x = k) ?run = filter (\<lambda>x. key x = k) ?pre"
      using filter_rev_strict [OF desc] by (cases isDescending) simp_all
    have whole: "?pre @ drop n rest = xs" by (simp add: xs)
    have sets: "set ?run \<union> set (drop n rest) = set xs"
      using arg_cong [OF whole, of set] by (auto simp del: append_take_drop_id)
    have o: "\<forall>x\<in>set (drop n rest). \<forall>y\<in>set ?run \<union> set (drop n rest).
        num_negative (Compare comparefn x y) = (key x < key y)"
      unfolding sets using ord xs by (auto dest: in_set_dropD)
    from BinaryInsertionSort_sorts [OF srt o]
    have b: "sorted (map key (sort_by comparefn xs))"
      "mset (sort_by comparefn xs) = mset ?run + mset (drop n rest)"
      "\<And>k. filter (\<lambda>x. key x = k) (sort_by comparefn xs)
          = filter (\<lambda>x. key x = k) ?run @ filter (\<lambda>x. key x = k) (drop n rest)"
      unfolding sb by simp_all
    have mr: "mset ?run = mset ?pre" by (cases isDescending) simp_all
    have "mset ?pre + mset (drop n rest) = mset (?pre @ drop n rest)"
      by (simp only: mset_append)
    with whole have "mset ?pre + mset (drop n rest) = mset xs" by (simp only:)
    with b(2) mr have m: "mset (sort_by comparefn xs) = mset xs" by (simp only:)
    have f: "filter (\<lambda>x. key x = k) (sort_by comparefn xs) = filter (\<lambda>x. key x = k) xs" for k
    proof -
      have "filter (\<lambda>x. key x = k) ?pre @ filter (\<lambda>x. key x = k) (drop n rest)
          = filter (\<lambda>x. key x = k) (?pre @ drop n rest)"
        by (simp only: filter_append)
      with whole have "filter (\<lambda>x. key x = k) ?pre @ filter (\<lambda>x. key x = k) (drop n rest)
          = filter (\<lambda>x. key x = k) xs" by (simp only:)
      with b(3) [of k] fl [of k] show ?thesis by (simp only:)
    qed
    have "sort_key key xs = sort_by comparefn xs"
    proof (rule properties_for_sort_key [OF m])
      fix k assume "k \<in> set (sort_by comparefn xs)"
      from f [of "key k"] show "filter (\<lambda>x. key k = key x) (sort_by comparefn xs) = filter (\<lambda>x. key k = key x) xs"
        by (simp add: eq_commute)
    next
      show "sorted (map key (sort_by comparefn xs))" by (rule b(1))
    qed
    then show ?thesis by simp
  qed
qed

subsection \<open>The ranking\<close>

lemma getEmbedding_ext_q: "getEmbedding ext_q t w = (Inr [Num 1, Num 0], w)"
  by (simp add: getEmbedding_def ext_q_def withRetry_success first_values_def)

lemma scores_examples:
  "cosineSimilarity [Num 1, Num 0] [Num 0, Num 1] = Num 0"
  "cosineSimilarity [Num 1, Num 0] [Num 0, Num 0] = NaN"
  "cosineSimilarity [Num 1, Num 0] [Num 1, Num 0] = Num 1"
  by (simp_all add: cosineSimilarity_def cosine_step_def elem_def)

text \<open>
  C3. The search is to return the entries in descending order of score, and the code says
  so itself (\<^verbatim>\<open>// Sort by score descending\<close>). It does not when a stored entry scores
  \<^verbatim>\<open>NaN\<close>, which is the score of a stored vector of zero magnitude (C5): the comparator
  \<^verbatim>\<open>b.score - a.score\<close> is then \<^verbatim>\<open>NaN\<close>, which the sort reads as 0. For the corpus of the
  entries a, b, c with the embeddings \<open>(0, 1)\<close>, \<open>(0, 0)\<close>, \<open>(1, 0)\<close>, stored in this order,
  and the query embedding \<open>(1, 0)\<close> the scores are 0, \<^verbatim>\<open>NaN\<close>, 1 (the arithmetic is exact on
  these values, in double precision too); the two comparisons that the sort makes, of b
  with a and of c with b, both give 0, so the array is taken for a sorted run and left as
  it is. The search returns a, b, c; with \<open>topK = 1\<close> it returns a, whose score is 0, and
  not c, whose score is 1.
\<close>

theorem similaritySearch_not_descending:
  "scoredDocs [Num 1, Num 0]
      [entry ''a'' [Num 0, Num 1], entry ''b'' [Num 0, Num 0], entry ''c'' [Num 1, Num 0]]
     = [(entry ''a'' [Num 0, Num 1], Num 0), (entry ''b'' [Num 0, Num 0], NaN),
        (entry ''c'' [Num 1, Num 0], Num 1)]
   \<and> similaritySearch ext_q ''query'' 3
        \<lparr>documents = [entry ''a'' [Num 0, Num 1], entry ''b'' [Num 0, Num 0],
                      entry ''c'' [Num 1, Num 0]],
         listeners = [] :: nat list\<rparr> ()
     = (Inr [entry ''a'' [Num 0, Num 1], entry ''b'' [Num 0, Num 0], entry ''c'' [Num 1, Num 0]], ())
   \<and> similaritySearch ext_q ''query'' 1
        \<lparr>documents = [entry ''a'' [Num 0, Num 1], entry ''b'' [Num 0, Num 0],
                      entry ''c'' [Num 1, Num 0]],
         listeners = [] :: nat list\<rparr> ()
     = (Inr [entry ''a'' [Num 0, Num 1]], ())"
proof -
  let ?a = "entry ''a'' [Num 0, Num 1]"
  let ?b = "entry ''b'' [Num 0, Num 0]"
  let ?c = "entry ''c'' [Num 1, Num 0]"
  have sc: "scoredDocs [Num 1, Num 0] [?a, ?b, ?c] = [(?a, Num 0), (?b, NaN), (?c, Num 1)]"
    using scores_examples by (simp add: scoredDocs_def entry_def)
  have srt: "sort_by by_score_desc [(?a, Num 0), (?b, NaN), (?c, Num 1)]
      = [(?a, Num 0), (?b, NaN), (?c, Num 1)]"
    by (simp add: sort_by_def CountAndMakeRun_def Compare_def by_score_desc_def num_sub_def)
  from sc srt show ?thesis
    by (simp add: similaritySearch_def getEmbedding_ext_q slice_def)
qed

subsection \<open>The retry helper: attempts and timers\<close>






subsection \<open>Ids of the stored entries\<close>

lemma withRetry_preserves:
  assumes "\<forall>w. used (snd (fn w)) = used w"
  shows "used (snd (withRetry fn r d w)) = used w"
  using assms
proof (induction fn r d w rule: withRetry.induct)
  case (1 fn retries delay w)
  obtain res w1 where f: "fn w = (res, w1)" by (cases "fn w")
  from "1.prems" have "used (snd (fn w)) = used w" by (rule spec)
  with f have u: "used w1 = used w" by simp
  show ?case
  proof (cases res)
    case (Inr v)
    with f u show ?thesis by (simp add: withRetry_success)
  next
    case (Inl e)
    show ?thesis
    proof (cases "isInternal e \<and> 0 < retries")
      case False
      with f Inl u show ?thesis by (simp add: withRetry_raise)
    next
      case True
      from "1.IH" [OF f [symmetric, unfolded Inl] refl True "1.prems"] u
      have ih: "used (snd (withRetry fn (retries - 1) (delay * 2) w1)) = used w" by simp
      obtain r ev w2 where rec: "withRetry fn (retries - 1) (delay * 2) w1 = ((r, ev), w2)"
        by (cases "withRetry fn (retries - 1) (delay * 2) w1") auto
      with f Inl True ih show ?thesis
        by (simp add: withRetry_again)
    qed
  qed
qed

lemma getEmbedding_preserves:
  assumes "\<forall>t w. used (snd (embedContent ext t w)) = used w"
  shows "used (snd (getEmbedding ext t w)) = used w"
proof -
  let ?fn = "\<lambda>w. case embedContent ext t w of
                    (Inl e, w') \<Rightarrow> (Inl e, w')
                  | (Inr response, w') \<Rightarrow> (Inr (first_values response), w')"
  have "\<forall>w. used (snd (?fn w)) = used w"
  proof
    fix w
    have "snd (?fn w) = snd (embedContent ext t w)"
      by (simp split: prod.splits sum.splits)
    with assms show "used (snd (?fn w)) = used w" by simp
  qed
  from withRetry_preserves [OF this, of 3 1000 w]
  have u: "used (snd (withRetry ?fn 3 1000 w)) = used w" .
  obtain r ev w' where run: "withRetry ?fn 3 1000 w = ((r, ev), w')"
    by (cases "withRetry ?fn 3 1000 w") auto
  with u have "used w' = used w" by simp
  moreover from run have "snd (getEmbedding ext t w) = w'"
    by (cases r) (simp_all add: getEmbedding_def)
  ultimately show ?thesis by simp
qed

lemma addDocument_loop_fresh:
  assumes draw: "\<forall>w s w'. random36 ext w = (s, w') \<and> 0 < spare w \<longrightarrow>
                    substring s 7 \<notin> used w \<and> used w' = insert (substring s 7) (used w)
                  \<and> spare w' = spare w - 1"
    and emb: "\<forall>t w. used (snd (embedContent ext t w)) = used w
                  \<and> spare (snd (embedContent ext t w)) = spare w"
    and clock: "\<forall>w. used (snd (now ext w)) = used w \<and> spare (snd (now ext w)) = spare w"
  shows "distinct (map id' docs) \<Longrightarrow> set (map id' docs) \<subseteq> used w \<Longrightarrow>
         length chunks \<le> spare w \<Longrightarrow>
         addDocument_loop ext src cat chunks (n, docs, w) = (n', docs', w') \<Longrightarrow>
         distinct (map id' docs') \<and> set (map id' docs') \<subseteq> used w'
       \<and> spare w \<le> spare w' + length chunks"
proof (induction chunks arbitrary: n docs w)
  case Nil
  then show ?case by simp
next
  case (Cons chunk chunks)
  obtain res w1 where g: "getEmbedding ext chunk w = (res, w1)" by (cases "getEmbedding ext chunk w")
  from emb have "\<forall>t w. (\<lambda>w. (used w, spare w)) (snd (embedContent ext t w)) = (\<lambda>w. (used w, spare w)) w"
    by simp
  from getEmbedding_preserves [OF this, of chunk w] g
  have u1: "used w1 = used w" "spare w1 = spare w" by simp_all
  show ?case
  proof (cases "\<exists>e. res = Inr e \<and> e \<noteq> []")
    case False
    then have "addDocument_loop ext src cat (chunk # chunks) (n, docs, w)
         = addDocument_loop ext src cat chunks (n, docs, w1)"
      using g by (cases res) auto
    with Cons.prems(4) have run: "addDocument_loop ext src cat chunks (n, docs, w1) = (n', docs', w')"
      by simp
    from Cons.prems(2,3) u1 have "set (map id' docs) \<subseteq> used w1" "length chunks \<le> spare w1"
      by simp_all
    from Cons.IH [OF Cons.prems(1) this run] u1 show ?thesis by simp
  next
    case True
    then obtain e where e: "res = Inr e" "e \<noteq> []" by blast
    obtain r w2 where rnd: "random36 ext w1 = (r, w2)" by (cases "random36 ext w1")
    obtain t w3 where nw: "now ext w2 = (t, w3)" by (cases "now ext w2")
    let ?doc = "\<lparr>id' = substring r 7, text' = chunk, source = src, category = cat,
                  embedding = e, timestamp = t\<rparr>"
    from Cons.prems(3) u1 have pos: "0 < spare w1" by simp
    from draw have "random36 ext w1 = (r, w2) \<and> 0 < spare w1 \<longrightarrow>
        substring r 7 \<notin> used w1 \<and> used w2 = insert (substring r 7) (used w1)
      \<and> spare w2 = spare w1 - 1" by blast
    with rnd pos have fr: "substring r 7 \<notin> used w1" "used w2 = insert (substring r 7) (used w1)"
      "spare w2 = spare w1 - 1"
      by simp_all
    from clock have "used (snd (now ext w2)) = used w2 \<and> spare (snd (now ext w2)) = spare w2"
      by (rule spec)
    with nw have u3: "used w3 = used w2" "spare w3 = spare w2" by simp_all
    from g e rnd nw Cons.prems(4)
    have run: "addDocument_loop ext src cat chunks (n + 1, docs @ [?doc], w3) = (n', docs', w')"
      by simp
    have d: "distinct (map id' (docs @ [?doc]))"
      using Cons.prems(1,2) fr(1) u1 by auto
    have s: "set (map id' (docs @ [?doc])) \<subseteq> used w3"
      using Cons.prems(2) fr(2) u1 u3 by auto
    have l: "length chunks \<le> spare w3"
      using Cons.prems(3) fr(3) u1 u3 by simp
    from Cons.IH [OF d s l run]
    have ih: "distinct (map id' docs')" "set (map id' docs') \<subseteq> used w'"
      "spare w3 \<le> spare w' + length chunks"
      by simp_all
    from ih(3) fr(3) u1 u3 have "spare w \<le> spare w' + length (chunk # chunks)" by simp
    with ih(1,2) show ?thesis by simp
  qed
qed

lemma addDocument_fresh:
  assumes draw: "\<forall>w s w'. random36 ext w = (s, w') \<and> 0 < spare w \<longrightarrow>
                    substring s 7 \<notin> used w \<and> used w' = insert (substring s 7) (used w)
                  \<and> spare w' = spare w - 1"
    and emb: "\<forall>t w. used (snd (embedContent ext t w)) = used w
                  \<and> spare (snd (embedContent ext t w)) = spare w"
    and clock: "\<forall>w. used (snd (now ext w)) = used w \<and> spare (snd (now ext w)) = spare w"
    and listen: "\<forall>l w. used (snd (call l w)) = used w \<and> spare (snd (call l w)) = spare w"
    and inv: "distinct (map id' (documents st))" "set (map id' (documents st)) \<subseteq> used w"
    and enough: "fragment_count body \<le> spare w"
    and run: "addDocument ext call body src cat st w = Some r"
  shows "distinct (map id' (documents (store r)))
       \<and> set (map id' (documents (store r))) \<subseteq> used (world r)
       \<and> spare w \<le> spare (world r) + fragment_count body"
proof -
  have ch: "chunkText body 500 = Some (chunks_from body 500 0)"
    by (simp add: chunkText_chunks_from)
  have len: "length (chunks_from body 500 0) = fragment_count body"
    using length_chunks_from [of 500 body 0] by (simp add: fragment_count_def)
  obtain n docs w' where
    loop: "addDocument_loop ext src cat (chunks_from body 500 0) (0, documents st, w) = (n, docs, w')"
    by (cases "addDocument_loop ext src cat (chunks_from body 500 0) (0, documents st, w)") auto
  from enough len have "length (chunks_from body 500 0) \<le> spare w" by simp
  from addDocument_loop_fresh [OF draw emb clock inv this loop] len
  have l: "distinct (map id' docs)" "set (map id' docs) \<subseteq> used w'"
    "spare w \<le> spare w' + fragment_count body"
    by simp_all
  from listen have "\<forall>l w. (\<lambda>w. (used w, spare w)) (snd (call l w)) = (\<lambda>w. (used w, spare w)) w"
    by simp
  from forEach_call_preserves [OF this, of "listeners st" w']
  have nt: "used (snd (notify call (st\<lparr>documents := docs\<rparr>) w')) = used w'"
    "spare (snd (notify call (st\<lparr>documents := docs\<rparr>) w')) = spare w'"
    by (simp_all add: notify_def)
  from run ch loop have "documents (store r) = docs"
    "world r = w' \<or> world r = snd (notify call (st\<lparr>documents := docs\<rparr>) w')"
    by (auto simp: addDocument_def split: if_splits prod.splits sum.splits)
  with l nt show ?thesis by auto
qed

lemma session_fresh:
  assumes draw: "\<forall>w s w'. random36 ext w = (s, w') \<and> 0 < spare w \<longrightarrow>
                    substring s 7 \<notin> used w \<and> used w' = insert (substring s 7) (used w)
                  \<and> spare w' = spare w - 1"
    and emb: "\<forall>t w. used (snd (embedContent ext t w)) = used w
                  \<and> spare (snd (embedContent ext t w)) = spare w"
    and clock: "\<forall>w. used (snd (now ext w)) = used w \<and> spare (snd (now ext w)) = spare w"
    and listen: "\<forall>l w. used (snd (call l w)) = used w \<and> spare (snd (call l w)) = spare w"
  shows "distinct (map id' (documents st)) \<Longrightarrow> set (map id' (documents st)) \<subseteq> used w \<Longrightarrow>
     (\<Sum>c\<leftarrow>calls. fragment_count (fst c)) \<le> spare w \<Longrightarrow>
     \<exists>st' w'. session ext call calls st w = Some (st', w')
        \<and> distinct (map id' (documents st')) \<and> set (map id' (documents st')) \<subseteq> used w'"
proof (induction calls arbitrary: st w)
  case Nil
  then show ?case by simp
next
  case (Cons c calls)
  obtain body src cat where c: "c = (body, src, cat)" by (cases c) auto
  obtain r where r: "addDocument ext call body src cat st w = Some r"
    using addDocument_returns [of ext call body src cat st w] by blast
  from Cons.prems(3) c have enough: "fragment_count body \<le> spare w"
    and rest: "(\<Sum>c\<leftarrow>calls. fragment_count (fst c)) + fragment_count body
                 \<le> spare w"
    by simp_all
  from addDocument_fresh [OF draw emb clock listen Cons.prems(1,2) enough r]
  have a: "distinct (map id' (documents (store r)))"
    "set (map id' (documents (store r))) \<subseteq> used (world r)"
    "spare w \<le> spare (world r) + fragment_count body"
    by simp_all
  from rest a(3) have "(\<Sum>c\<leftarrow>calls. fragment_count (fst c)) \<le> spare (world r)"
    by simp
  from Cons.IH [OF a(1,2) this] c r show ?case by simp
qed

text \<open>
  C9, as the code has it. An id is the base-36 print of a random draw without its first seven
  characters, and the store does not compare it with the ids it holds. When two draws
  print alike from the eighth character on, as 0.5 and 0.25 do, two entries share an id.
  The ids stay pairwise distinct as long as the draws that the session makes give new ids:
  let \<open>used w\<close> be the ids given up to the world \<open>w\<close> and \<open>spare w\<close> a number of further
  draws that are known to give ids not given before (the other calls leave both as they
  are). Then every sequence of \<^verbatim>\<open>addDocument\<close> calls with no more fragments in all than
  \<open>spare w\<close>, on a store with pairwise distinct ids, returns and leaves the ids pairwise
  distinct. Nothing is asked of the draws after these.
\<close>

theorem session_ids_distinct:
  assumes "\<forall>w s w'. random36 ext w = (s, w') \<and> 0 < spare w \<longrightarrow>
             substring s 7 \<notin> used w \<and> used w' = insert (substring s 7) (used w)
           \<and> spare w' = spare w - 1"
    and "\<forall>t w. used (snd (embedContent ext t w)) = used w
             \<and> spare (snd (embedContent ext t w)) = spare w"
    and "\<forall>w. used (snd (now ext w)) = used w \<and> spare (snd (now ext w)) = spare w"
    and "\<forall>l w. used (snd (call l w)) = used w \<and> spare (snd (call l w)) = spare w"
    and "distinct (map id' (documents st))" and "set (map id' (documents st)) \<subseteq> used w"
    and "(\<Sum>c\<leftarrow>calls. fragment_count (fst c)) \<le> spare w"
  shows "\<exists>st' w'. session ext call calls st w = Some (st', w')
           \<and> distinct (map id' (documents st'))
           \<and> set (map id' (documents st')) \<subseteq> used w'"
  using session_fresh [OF assms] .

lemma getEmbedding_collide: "getEmbedding ext_collide t n = (Inr [Num 1, Num 0], n)"
  by (simp add: getEmbedding_def ext_collide_def withRetry_success first_values_def)

lemma collide_draws:
  "random36 ext_collide n = (if n = 0 then ''0.i'' else ''0.9'', n + 1)"
  "now ext_collide n = (1700000000000, n)"
  by (simp_all add: ext_collide_def)

theorem session_ids_distinct_counterexample:
  "map_option (\<lambda>p. map id' (documents (fst p)))
     (session ext_collide silent [(''alpha'', ''kb'', ''Core''), (''beta'', ''kb'', ''Core'')]
        \<lparr>documents = [], listeners = [] :: nat list\<rparr> 0)
   = Some ['''', '''']"
  by (simp add: addDocument_def chunkText_short getEmbedding_collide collide_draws substring_def
        notify_def)

lemma getEmbedding_two_draws: "getEmbedding ext_two_draws t n = (Inr [Num 1, Num 0], n)"
  by (simp add: getEmbedding_def ext_two_draws_def withRetry_success first_values_def)

lemma two_draws:
  "random36 ext_two_draws n = (if n = 0 then ''0.4fzyo82mvyr'' else ''0.9x2k1q7tlbc'', n + 1)"
  "now ext_two_draws n = (1700000000000, n)"
  by (simp_all add: ext_two_draws_def)

lemma two_draws_fresh:
  "\<forall>w s w'. random36 ext_two_draws w = (s, w') \<and> 0 < draws_left w \<longrightarrow>
     substring s 7 \<notin> ids_drawn w \<and> ids_drawn w' = insert (substring s 7) (ids_drawn w)
   \<and> draws_left w' = draws_left w - 1"
proof (intro allI impI)
  fix w s w' assume a: "random36 ext_two_draws w = (s, w') \<and> 0 < draws_left w"
  then have "w = 0 \<or> w = 1" by (auto simp: draws_left_def)
  with a show "substring s 7 \<notin> ids_drawn w \<and> ids_drawn w' = insert (substring s 7) (ids_drawn w)
   \<and> draws_left w' = draws_left w - 1"
    by (auto simp: two_draws ids_drawn_def draws_left_def substring_def)
qed

theorem session_ids_distinct_witness:
  "map_option (\<lambda>p. map id' (documents (fst p)))
     (session ext_two_draws silent [(''alpha'', ''kb'', ''Core''), (''beta'', ''kb'', ''Core'')]
        \<lparr>documents = [], listeners = [] :: nat list\<rparr> 0)
   = Some [''82mvyr'', ''q7tlbc'']
   \<and> (\<Sum>c\<leftarrow>[(''alpha'', ''kb'', ''Core''), (''beta'', ''kb'', ''Core'')].
         fragment_count (fst c)) \<le> draws_left 0"
proof -
  have emb: "\<forall>t w. ids_drawn (snd (embedContent ext_two_draws t w)) = ids_drawn w
                 \<and> draws_left (snd (embedContent ext_two_draws t w)) = draws_left w"
    by (simp add: ext_two_draws_def)
  have clock: "\<forall>w. ids_drawn (snd (now ext_two_draws w)) = ids_drawn w
                 \<and> draws_left (snd (now ext_two_draws w)) = draws_left w"
    by (simp add: ext_two_draws_def)
  have listen: "\<forall>(l :: nat) w. ids_drawn (snd (silent l w)) = ids_drawn w
                 \<and> draws_left (snd (silent l w)) = draws_left w"
    by (simp add: silent_def)
  have enough: "(\<Sum>c\<leftarrow>[(''alpha'', ''kb'', ''Core''), (''beta'', ''kb'', ''Core'')].
         fragment_count (fst c)) \<le> draws_left 0"
    by (simp add: draws_left_def fragment_count_def)
  from session_ids_distinct
    [where ext = ext_two_draws and used = ids_drawn and spare = draws_left and w = 0
       and call = silent
       and st = "\<lparr>documents = [], listeners = [] :: nat list\<rparr>"
       and calls = "[(''alpha'', ''kb'', ''Core''), (''beta'', ''kb'', ''Core'')]",
     OF two_draws_fresh emb clock listen _ _ enough]
  obtain st' w' where "session ext_two_draws silent [(''alpha'', ''kb'', ''Core''), (''beta'', ''kb'', ''Core'')]
        \<lparr>documents = [], listeners = [] :: nat list\<rparr> 0 = Some (st', w')"
    and "distinct (map id' (documents st'))"
    by auto
  moreover have "map_option (\<lambda>p. map id' (documents (fst p)))
     (session ext_two_draws silent [(''alpha'', ''kb'', ''Core''), (''beta'', ''kb'', ''Core'')]
        \<lparr>documents = [], listeners = [] :: nat list\<rparr> 0)
   = Some [''82mvyr'', ''q7tlbc'']"
    by (simp add: addDocument_def chunkText_short getEmbedding_two_draws two_draws substring_def
          notify_def)
  ultimately show ?thesis using enough by simp
qed

subsection \<open>Intent of the example queries\<close>

lemma lower_eiffel: "toLowerCase ''Where is the Eiffel Tower?'' = ''where is the eiffel tower?''"
  by (simp add: toLowerCase_def)

lemma map_eiffel: "isMapIntent ''Where is the Eiffel Tower?''"
  by (simp add: isMapIntent_def lower_eiffel)

lemma lower_cat: "toLowerCase ''generate an image of a cat'' = ''generate an image of a cat''"
  by (simp add: toLowerCase_def)

lemma no_map_cat: "\<not> isMapIntent ''generate an image of a cat''"
  by (simp add: isMapIntent_def lower_cat)

lemma image_cat: "isImageRequest ''generate an image of a cat''"
proof -
  let ?s = "''generate an image of a cat''"
  have v: "wordAt ?s 0 ''generate''"
    by (simp add: wordAt_def wordBoundary_def isWordChar_def)
  have n: "wordAt ?s 12 ''image''"
    by (simp add: wordAt_def wordBoundary_def isWordChar_def)
  have gap: "list_all (\<lambda>c. \<not> isLineTerminator c) (take (12 - (0 + length ''generate'')) (drop (0 + length ''generate'') ?s))"
    by (simp add: isLineTerminator_def)
  show ?thesis
    unfolding isImageRequest_def lower_cat matchesWordThenWord_def list_ex_iff
    apply (rule bexI [of _ 0])
     apply (rule bexI [of _ "''generate''"])
      apply (rule conjI [OF v])
      apply (rule bexI [of _ 12])
       apply (rule conjI [OF gap])
       apply (rule bexI [of _ "''image''"])
        apply (rule n)
       apply simp
      apply simp
     apply simp
    apply simp
    done
qed

lemma lower_draw_map: "toLowerCase ''draw a map of Paris'' = ''draw a map of paris''"
  by (simp add: toLowerCase_def)

lemma map_draw_map: "isMapIntent ''draw a map of Paris''"
  by (simp add: isMapIntent_def lower_draw_map)

lemma no_video_draw_map: "\<not> isVideoRequest ''draw a map of Paris''"
  by (simp add: isVideoRequest_def lower_draw_map matchesWord_def wordAt_def upt_rec)

lemma matchesWordThenWord_second:
  "matchesWordThenWord vs ns s \<Longrightarrow> matchesWord ns s"
  unfolding matchesWordThenWord_def matchesWord_def list_ex_iff
  by fastforce

lemma matchesWordThenWord_first:
  "matchesWordThenWord vs ns s \<Longrightarrow> matchesWord vs s"
  unfolding matchesWordThenWord_def matchesWord_def list_ex_iff
  by fastforce

lemma no_image_draw_map: "\<not> isImageRequest ''draw a map of Paris''"
proof -
  have "\<not> matchesWord [''image'', ''picture'', ''photo'', ''art''] ''draw a map of paris''"
    by (simp add: matchesWord_def wordAt_def upt_rec)
  then show ?thesis
    unfolding isImageRequest_def lower_draw_map using matchesWordThenWord_second by blast
qed

lemma lower_animate: "toLowerCase ''animate a map of Paris'' = ''animate a map of paris''"
  by (simp add: toLowerCase_def)

lemma map_animate: "isMapIntent ''animate a map of Paris''"
  by (simp add: isMapIntent_def lower_animate)

lemma video_animate: "isVideoRequest ''animate a map of Paris''"
proof -
  have "wordAt ''animate a map of paris'' 0 ''animate''"
    by (simp add: wordAt_def wordBoundary_def isWordChar_def)
  then show ?thesis
    unfolding isVideoRequest_def lower_animate matchesWord_def list_ex_iff
    by (intro bexI [of _ 0] bexI [of _ "''animate''"]) simp_all
qed

lemma lower_hello: "toLowerCase ''hello'' = ''hello''"
  by (simp add: toLowerCase_def)

lemma no_map_hello: "\<not> isMapIntent ''hello''"
  by (simp add: isMapIntent_def lower_hello)

lemma no_image_hello: "\<not> isImageRequest ''hello''"
proof -
  have "\<not> matchesWord [''generate'', ''create'', ''draw'', ''make''] ''hello''"
    by (simp add: matchesWord_def wordAt_def upt_rec)
  then show ?thesis
    unfolding isImageRequest_def lower_hello using matchesWordThenWord_first by blast
qed

subsection \<open>Model and tools of a call\<close>

lemma configure_map:
  "isMapIntent query \<Longrightarrow>
     selectedModel (configure query doc persona custom) = MAPS_MODEL
   \<and> tools (configure query doc persona custom) = [GoogleMaps]"
  by (simp add: configure_def Let_def)

lemma configure_visual:
  "\<not> isMapIntent query \<Longrightarrow> persona = VISUAL_CREATOR \<Longrightarrow>
     selectedModel (configure query doc persona custom) = IMAGE_MODEL
   \<and> tools (configure query doc persona custom) = [FunctionDeclarations [generateImageTool]]"
  by (simp add: configure_def Let_def)

lemma configure_default:
  "\<not> isMapIntent query \<Longrightarrow> persona \<noteq> VISUAL_CREATOR \<Longrightarrow> doc = None \<Longrightarrow>
     selectedModel (configure query doc persona custom) = MODEL_NAME
   \<and> tools (configure query doc persona custom)
       = (if isImageRequest query then [FunctionDeclarations [generateImageTool]] else [GoogleSearch])"
  by (simp add: configure_def Let_def)

lemma configure_document:
  "\<not> isMapIntent query \<Longrightarrow> persona \<noteq> VISUAL_CREATOR \<Longrightarrow> doc \<noteq> None \<Longrightarrow>
     selectedModel (configure query doc persona custom) = MODEL_NAME
   \<and> tools (configure query doc persona custom) = []"
  by (simp add: configure_def Let_def)

lemma configure_exclusive:
  "\<not> (GoogleSearch \<in> set (tools (configure query doc persona custom))
      \<and> (\<exists>fs. FunctionDeclarations fs \<in> set (tools (configure query doc persona custom))))"
  by (simp add: configure_def Let_def)

lemma converse_uses_configure:
  "\<exists>sys hist q.
     converse ext query chatHistory doc links persona rag custom w =
       (case attempt ext (selectedModel (configure query doc persona custom)) sys
               (tools (configure query doc persona custom)) hist q w of
          (Inr result, w1) \<Rightarrow> (Inr result, w1)
        | (Inl error, w1) \<Rightarrow>
            recover ext (selectedModel (configure query doc persona custom)) sys
              (tools (configure query doc persona custom)) hist q error w1)"
  unfolding converse_def Let_def by blast

lemma chatHybrid_video:
  "persona = VISUAL_CREATOR \<Longrightarrow> isVideoRequest query \<Longrightarrow> doc = None \<Longrightarrow>
   ensureApiKey ext w = (Inr u, w1) \<Longrightarrow>
     chatHybrid ext query chatHistory doc links persona rag custom w = videoChain ext query w1"
  by (simp add: chatHybrid_def)

lemma chatHybrid_converse:
  "persona = VISUAL_CREATOR \<Longrightarrow> \<not> (isVideoRequest query \<and> doc = None) \<Longrightarrow>
   ensureApiKey ext w = (Inr u, w1) \<Longrightarrow>
     chatHybrid ext query chatHistory doc links persona rag custom w
       = converse ext query chatHistory doc links persona rag custom w1"
  by (auto simp: chatHybrid_def)

lemma chatHybrid_other:
  "persona \<noteq> VISUAL_CREATOR \<Longrightarrow>
     chatHybrid ext query chatHistory doc links persona rag custom w
       = converse ext query chatHistory doc links persona rag custom w"
  by (simp add: chatHybrid_def)

text \<open>
  C6, as the code has it. For every call: the visual persona with a video request and no
  document runs the video chain, whatever else the query contains; every other call goes
  to the chat with the model and the tools of \<open>configure\<close>, for which a location keyword
  (\<^verbatim>\<open>map\<close>, \<^verbatim>\<open>location\<close>, \<^verbatim>\<open>path\<close>, \<^verbatim>\<open>where is\<close>) selects the maps model with the mapping tool
  for every persona, the visual persona included; without a location keyword the visual
  persona gets the image model with the image tool; without a location keyword, a document
  or the visual persona, the default model gets the image tool exactly when the query
  matches a creation verb and then a media noun, and the web search tool exactly otherwise;
  with a document and neither of the former, no tool. The web search tool and a function
  declaration are never in one configuration.
  So the visual persona does not come before the location keywords: with the query
  \<^verbatim>\<open>draw a map of Paris\<close> its message goes to the maps model with the mapping tool.
\<close>

theorem configure_precedence:
  "(persona = VISUAL_CREATOR \<and> isVideoRequest query \<and> doc = None
      \<and> ensureApiKey ext w = (Inr u, w1) \<longrightarrow>
      chatHybrid ext query chatHistory doc links persona rag custom w = videoChain ext query w1)
   \<and> (persona = VISUAL_CREATOR \<and> \<not> (isVideoRequest query \<and> doc = None)
      \<and> ensureApiKey ext w = (Inr u, w1) \<longrightarrow>
      chatHybrid ext query chatHistory doc links persona rag custom w
        = converse ext query chatHistory doc links persona rag custom w1)
   \<and> (persona \<noteq> VISUAL_CREATOR \<longrightarrow>
      chatHybrid ext query chatHistory doc links persona rag custom w
        = converse ext query chatHistory doc links persona rag custom w)
   \<and> (\<exists>sys hist q.
         converse ext query chatHistory doc links persona rag custom w =
           (case attempt ext (selectedModel (configure query doc persona custom)) sys
                   (tools (configure query doc persona custom)) hist q w of
              (Inr result, w1) \<Rightarrow> (Inr result, w1)
            | (Inl error, w1) \<Rightarrow>
                recover ext (selectedModel (configure query doc persona custom)) sys
                  (tools (configure query doc persona custom)) hist q error w1))
   \<and> (isMapIntent query \<longrightarrow>
        selectedModel (configure query doc persona custom) = MAPS_MODEL
      \<and> tools (configure query doc persona custom) = [GoogleMaps])
   \<and> (\<not> isMapIntent query \<and> persona = VISUAL_CREATOR \<longrightarrow>
        selectedModel (configure query doc persona custom) = IMAGE_MODEL
      \<and> tools (configure query doc persona custom) = [FunctionDeclarations [generateImageTool]])
   \<and> (\<not> isMapIntent query \<and> persona \<noteq> VISUAL_CREATOR \<and> doc = None \<longrightarrow>
        selectedModel (configure query doc persona custom) = MODEL_NAME
      \<and> tools (configure query doc persona custom)
          = (if isImageRequest query then [FunctionDeclarations [generateImageTool]]
             else [GoogleSearch]))
   \<and> (\<not> isMapIntent query \<and> persona \<noteq> VISUAL_CREATOR \<and> doc \<noteq> None \<longrightarrow>
        selectedModel (configure query doc persona custom) = MODEL_NAME
      \<and> tools (configure query doc persona custom) = [])
   \<and> \<not> (GoogleSearch \<in> set (tools (configure query doc persona custom))
        \<and> (\<exists>fs. FunctionDeclarations fs \<in> set (tools (configure query doc persona custom))))"
proof -
  have video: "persona = VISUAL_CREATOR \<and> isVideoRequest query \<and> doc = None
      \<and> ensureApiKey ext w = (Inr u, w1) \<longrightarrow>
      chatHybrid ext query chatHistory doc links persona rag custom w = videoChain ext query w1"
    using chatHybrid_video [of persona query doc ext w u w1 chatHistory links rag custom] by blast
  have visual: "persona = VISUAL_CREATOR \<and> \<not> (isVideoRequest query \<and> doc = None)
      \<and> ensureApiKey ext w = (Inr u, w1) \<longrightarrow>
      chatHybrid ext query chatHistory doc links persona rag custom w
        = converse ext query chatHistory doc links persona rag custom w1"
    using chatHybrid_converse [of persona query doc ext w u w1 chatHistory links rag custom]
    by blast
  have other: "persona \<noteq> VISUAL_CREATOR \<longrightarrow>
      chatHybrid ext query chatHistory doc links persona rag custom w
        = converse ext query chatHistory doc links persona rag custom w"
    using chatHybrid_other [of persona ext query chatHistory doc links rag custom w] by blast
  note config = configure_map [of query doc persona custom]
      configure_visual [of query persona doc custom]
      configure_default [of query persona doc custom]
      configure_document [of query persona doc custom]
  show ?thesis
    apply (intro conjI)
            apply (rule video)
           apply (rule visual)
          apply (rule other)
         apply (rule converse_uses_configure)
    using config configure_exclusive [of query doc persona custom]
    by blast+
qed

lemma answer_calls:
  "ensureApiKey ext_answer w = (Inr (), w)"
  "videoChain ext_answer query w = (Inr (text_only ''Video Generated''), w)"
  "sendMessage ext_answer mdl sys tls hist msg w =
     (Inr \<lparr>response_text = Some ''ok'', functionCalls = None, groundingChunks = None\<rparr>,
      w @ [(mdl, tls, msg)])"
  by (simp_all add: ext_answer_def)

lemma denied_calls:
  "ensureApiKey ext_denied w = (Inr (), w)"
  "sendMessage ext_denied mdl sys tls hist msg w = (Inl error_403, w @ [(mdl, tls, msg)])"
  by (simp_all add: ext_denied_def)

theorem configure_precedence_counterexample:
  "chatHybrid ext_answer ''draw a map of Paris'' [] None None VISUAL_CREATOR None None []
     = (Inr \<lparr>result_text = ''ok'', sources = Some [], generatedImage = None, mapData = Some [],
              generatedVideo = None\<rparr>,
        [(MAPS_MODEL, [GoogleMaps], TextMessage ''draw a map of Paris'')])
   \<and> MAPS_MODEL \<noteq> IMAGE_MODEL"
  by (simp add: chatHybrid_def converse_def attempt_def answer_calls no_video_draw_map configure_map [OF map_draw_map]
        Let_def MAPS_MODEL_def IMAGE_MODEL_def)

text \<open>
  C7, at an input where the code departs from it. The default persona asks \<^verbatim>\<open>hello\<close>, so
  the web search tool is enabled; the endpoint rejects the message with status 403. The
  message is sent once more, to the same model with the same text and no tools, and is
  rejected again. The caller then receives that second error as it was thrown: it is not
  the error \<^verbatim>\<open>PAYMENT_REQUIRED\<close>, and its message is not \<^verbatim>\<open>PAYMENT_REQUIRED\<close>.
\<close>

theorem chatHybrid_denied_twice:
  "chatHybrid ext_denied ''hello'' [] None None GENERAL None None []
     = (Inl error_403,
        [(MODEL_NAME, [GoogleSearch], TextMessage ''hello''),
         (MODEL_NAME, [], TextMessage ''hello'')])
   \<and> error_403 \<noteq> PAYMENT_REQUIRED
   \<and> message error_403 \<noteq> Some ''PAYMENT_REQUIRED''"
  using configure_default [of "''hello''" GENERAL None None] no_map_hello no_image_hello
  by (simp add: chatHybrid_def converse_def attempt_def recover_def denied_calls Let_def
        error_403_def PAYMENT_REQUIRED_def)

lemma recover_permission:
  assumes "status error = Some 403 \<or> message_includes error ''PERMISSION_DENIED''"
  shows "recover ext mdl sys tls hist q error w =
           (if tls = [] then (Inl PAYMENT_REQUIRED, w)
            else case sendMessage ext mdl sys [] hist (TextMessage q) w of
                   (Inl e, w1) \<Rightarrow> (Inl e, w1)
                 | (Inr response, w1) \<Rightarrow> (Inr (text_only (or_else (response_text response) [])), w1))"
  using assms by (auto simp: recover_def)

theorem configure_precedence_witness:
  "isMapIntent ''Where is the Eiffel Tower?''
   \<and> selectedModel (configure ''Where is the Eiffel Tower?'' None GENERAL None) = MAPS_MODEL
   \<and> tools (configure ''Where is the Eiffel Tower?'' None GENERAL None) = [GoogleMaps]
   \<and> \<not> isMapIntent ''generate an image of a cat'' \<and> isImageRequest ''generate an image of a cat''
   \<and> tools (configure ''generate an image of a cat'' None GENERAL None)
        = [FunctionDeclarations [generateImageTool]]
   \<and> \<not> isMapIntent ''hello'' \<and> \<not> isImageRequest ''hello''
   \<and> tools (configure ''hello'' None GENERAL None) = [GoogleSearch]
   \<and> isVideoRequest ''animate a map of Paris'' \<and> isMapIntent ''animate a map of Paris''
   \<and> chatHybrid ext_answer ''animate a map of Paris'' [] None None VISUAL_CREATOR None None []
        = (Inr (text_only ''Video Generated''), [])"
proof -
  have a: "isMapIntent ''Where is the Eiffel Tower?'' \<longrightarrow>
        selectedModel (configure ''Where is the Eiffel Tower?'' None GENERAL None) = MAPS_MODEL
      \<and> tools (configure ''Where is the Eiffel Tower?'' None GENERAL None) = [GoogleMaps]"
    using configure_precedence
      [where query = "''Where is the Eiffel Tower?''" and doc = None and persona = GENERAL
         and custom = None and ext = ext_answer and w = "[]" and ?w1.0 = "[]" and u = "()"
         and chatHistory = "[]" and links = None and rag = None]
    by (elim conjE)
  have b: "\<not> isMapIntent ''generate an image of a cat'' \<and> GENERAL \<noteq> VISUAL_CREATOR
        \<and> (None :: document option) = None \<longrightarrow>
        selectedModel (configure ''generate an image of a cat'' None GENERAL None) = MODEL_NAME
      \<and> tools (configure ''generate an image of a cat'' None GENERAL None)
          = (if isImageRequest ''generate an image of a cat''
             then [FunctionDeclarations [generateImageTool]] else [GoogleSearch])"
    using configure_precedence
      [where query = "''generate an image of a cat''" and doc = None and persona = GENERAL
         and custom = None and ext = ext_answer and w = "[]" and ?w1.0 = "[]" and u = "()"
         and chatHistory = "[]" and links = None and rag = None]
    by (elim conjE)
  have c: "\<not> isMapIntent ''hello'' \<and> GENERAL \<noteq> VISUAL_CREATOR
        \<and> (None :: document option) = None \<longrightarrow>
        selectedModel (configure ''hello'' None GENERAL None) = MODEL_NAME
      \<and> tools (configure ''hello'' None GENERAL None)
          = (if isImageRequest ''hello''
             then [FunctionDeclarations [generateImageTool]] else [GoogleSearch])"
    using configure_precedence
      [where query = "''hello''" and doc = None and persona = GENERAL
         and custom = None and ext = ext_answer and w = "[]" and ?w1.0 = "[]" and u = "()"
         and chatHistory = "[]" and links = None and rag = None]
    by (elim conjE)
  have d: "VISUAL_CREATOR = VISUAL_CREATOR \<and> isVideoRequest ''animate a map of Paris''
        \<and> (None :: document option) = None
        \<and> ensureApiKey ext_answer [] = (Inr (), []) \<longrightarrow>
        chatHybrid ext_answer ''animate a map of Paris'' [] None None VISUAL_CREATOR None None []
          = videoChain ext_answer ''animate a map of Paris'' []"
    using configure_precedence
      [where query = "''animate a map of Paris''" and doc = None and persona = VISUAL_CREATOR
         and custom = None and ext = ext_answer and w = "[]" and ?w1.0 = "[]" and u = "()"
         and chatHistory = "[]" and links = None and rag = None]
    by (elim conjE)
  from a map_eiffel have a': "selectedModel (configure ''Where is the Eiffel Tower?'' None GENERAL None) = MAPS_MODEL"
      "tools (configure ''Where is the Eiffel Tower?'' None GENERAL None) = [GoogleMaps]"
    by simp_all
  from b no_map_cat image_cat have b': "tools (configure ''generate an image of a cat'' None GENERAL None)
        = [FunctionDeclarations [generateImageTool]]"
    by simp
  from c no_map_hello no_image_hello have c': "tools (configure ''hello'' None GENERAL None) = [GoogleSearch]"
    by simp
  from d video_animate have d': "chatHybrid ext_answer ''animate a map of Paris'' [] None None VISUAL_CREATOR None None []
        = (Inr (text_only ''Video Generated''), [])"
    by (simp add: answer_calls)
  from a' b' c' d' map_eiffel no_map_cat image_cat no_map_hello no_image_hello video_animate map_animate show ?thesis
    by (intro conjI)
qed

subsection \<open>Further properties of the store and the router\<close>

text \<open>
  X1. \<^verbatim>\<open>getEmbedding\<close> returns a vector, and does not throw, for every text and every behaviour
  of the embedding endpoint.
\<close>

theorem getEmbedding_never_throws:
  "\<exists>v w'. getEmbedding ext t w = (Inr v, w')"
  by (rule getEmbedding_returns)

text \<open>
  X2. What the \<^verbatim>\<open>catch\<close> clause of \<^verbatim>\<open>chatHybrid\<close> does with a permission error (status 403, or
  \<^verbatim>\<open>PERMISSION_DENIED\<close> in the message): without tools it throws \<^verbatim>\<open>PAYMENT_REQUIRED\<close>; with tools
  it sends the same message to a chat with the same model, instruction and history and no
  tools, returns the text of the answer, and throws what that call throws.
\<close>

theorem recover_permission_denied:
  assumes "status error = Some 403 \<or> message_includes error ''PERMISSION_DENIED''"
  shows "(tls = [] \<longrightarrow> recover ext mdl sys tls hist q error w = (Inl PAYMENT_REQUIRED, w))
       \<and> (tls \<noteq> [] \<longrightarrow>
            (\<forall>response w1. sendMessage ext mdl sys [] hist (TextMessage q) w = (Inr response, w1) \<longrightarrow>
               recover ext mdl sys tls hist q error w
                 = (Inr (text_only (or_else (response_text response) [])), w1))
          \<and> (\<forall>e w1. sendMessage ext mdl sys [] hist (TextMessage q) w = (Inl e, w1) \<longrightarrow>
               recover ext mdl sys tls hist q error w = (Inl e, w1)))"
  using assms by (simp add: recover_permission)

theorem recover_permission_denied_witness:
  "status error_403 = Some 403
   \<and> recover ext_answer MODEL_NAME ''be brief'' [GoogleSearch] [] ''hello'' error_403 []
       = (Inr (text_only ''ok''), [(MODEL_NAME, [], TextMessage ''hello'')])
   \<and> recover ext_answer MODEL_NAME ''be brief'' [] [] ''hello'' error_403 []
       = (Inl PAYMENT_REQUIRED, [])"
proof -
  have s: "status error_403 = Some 403" by (simp add: error_403_def)
  from recover_permission_denied
    [where error = error_403 and ext = ext_answer and mdl = MODEL_NAME and sys = "''be brief''"
       and hist = "[]" and q = "''hello''" and w = "[]" and tls = "[GoogleSearch]"] s
  have a: "recover ext_answer MODEL_NAME ''be brief'' [GoogleSearch] [] ''hello'' error_403 []
       = (Inr (text_only ''ok''), [(MODEL_NAME, [], TextMessage ''hello'')])"
    by (simp add: answer_calls)
  from recover_permission_denied
    [where error = error_403 and ext = ext_answer and mdl = MODEL_NAME and sys = "''be brief''"
       and hist = "[]" and q = "''hello''" and w = "[]" and tls = "[]"] s
  have b: "recover ext_answer MODEL_NAME ''be brief'' [] [] ''hello'' error_403 []
       = (Inl PAYMENT_REQUIRED, [])"
    by simp
  from s a b show ?thesis by simp
qed

lemma fold_seen:
  "fold (\<lambda>x seen. if x \<in> set seen then seen else seen @ [x]) xs seen
     = seen @ filter (\<lambda>x. x \<notin> set seen) (firsts xs)"
proof (induction xs arbitrary: seen)
  case Nil
  show ?case by simp
next
  case (Cons x xs)
  show ?case
  proof (cases "x \<in> set seen")
    case True
    have "filter (\<lambda>y. y \<notin> set seen) (filter (\<lambda>y. y \<noteq> x) (firsts xs))
            = filter (\<lambda>y. y \<notin> set seen) (firsts xs)"
      using True by (auto intro: filter_cong)
    with True Cons.IH [of seen] show ?thesis by simp
  next
    case False
    have "filter (\<lambda>y. y \<notin> set (seen @ [x])) (firsts xs)
            = filter (\<lambda>y. y \<notin> set seen) (filter (\<lambda>y. y \<noteq> x) (firsts xs))"
      by (auto intro: filter_cong)
    with False Cons.IH [of "seen @ [x]"] show ?thesis by simp
  qed
qed

lemma set_values_firsts: "set_values xs = firsts xs"
  by (simp add: set_values_def fold_seen)

lemma set_firsts: "set (firsts xs) = set xs"
  by (induction xs) auto

lemma distinct_firsts: "distinct (firsts xs)"
  by (induction xs) (auto simp: set_firsts)

text \<open>
  X3. \<^verbatim>\<open>getStats\<close> reports the number of stored entries and their categories, each once, in
  the order in which they were first stored: entries of the categories A, B, A give A, B.
\<close>

theorem getStats_categories:
  "totalDocuments (getStats st) = length (documents st)
   \<and> categories (getStats st) = firsts (map category (documents st))
   \<and> distinct (categories (getStats st))
   \<and> set (categories (getStats st)) = category ` set (documents st)
   \<and> categories (getStats \<lparr>documents = [doc1\<lparr>category := ''A''\<rparr>, doc1\<lparr>category := ''B''\<rparr>,
                                          doc1\<lparr>category := ''A''\<rparr>], listeners = [] :: nat list\<rparr>)
       = [''A'', ''B'']"
  by (simp add: getStats_def set_values_firsts distinct_firsts set_firsts)

lemma by_score_desc_order:
  assumes "snd x = Num rx" and "snd y = Num ry"
  shows "num_negative (Compare by_score_desc x y) = (neg_score x < neg_score y)"
  using assms by (simp add: Compare_def by_score_desc_def num_sub_def neg_score_def)

text \<open>
  X4. The sorting step of the search, on scored documents none of whose scores is \<^verbatim>\<open>NaN\<close> or
  infinite: it returns the same scored documents, in descending order of score, those of
  equal score in the order in which they stood. (The comparator is the sign of the
  difference of two scores, which no rounding changes.)
\<close>

theorem sort_by_score_desc_stable:
  assumes "\<forall>p\<in>set sds. \<exists>r. snd p = Num r"
  shows "mset (sort_by by_score_desc sds) = mset sds
       \<and> sorted_wrt (\<lambda>a b. num_le (snd b) (snd a)) (sort_by by_score_desc sds)
       \<and> (\<forall>s. filter (\<lambda>p. snd p = s) (sort_by by_score_desc sds) = filter (\<lambda>p. snd p = s) sds)"
proof -
  have "\<forall>x\<in>set sds. \<forall>y\<in>set sds.
      num_negative (Compare by_score_desc x y) = (neg_score x < neg_score y)"
    using assms by_score_desc_order by blast
  from sort_by_sort_key [OF this]
  have eq: "sort_by by_score_desc sds = sort_key neg_score sds" .
  have fin: "\<And>p. p \<in> set (sort_key neg_score sds) \<Longrightarrow> \<exists>r. snd p = Num r"
    using assms by simp
  have "sorted (map neg_score (sort_key neg_score sds))" by (rule sorted_sort_key)
  then have "sorted_wrt (\<lambda>a b. neg_score a \<le> neg_score b) (sort_key neg_score sds)"
    by (simp add: sorted_map)
  then have srt: "sorted_wrt (\<lambda>a b. num_le (snd b) (snd a)) (sort_key neg_score sds)"
  proof (rule sorted_wrt_mono_rel [rotated])
    fix a b assume a: "a \<in> set (sort_key neg_score sds)" and b: "b \<in> set (sort_key neg_score sds)"
      and le: "neg_score a \<le> neg_score b"
    from fin [OF a] obtain ra where ra: "snd a = Num ra" by blast
    from fin [OF b] obtain rb where rb: "snd b = Num rb" by blast
    from le ra rb show "num_le (snd b) (snd a)" by (simp add: neg_score_def)
  qed
  have stable: "filter (\<lambda>p. snd p = s) (sort_key neg_score sds) = filter (\<lambda>p. snd p = s) sds" for s
  proof (cases "\<exists>k. s = Num k")
    case True
    then obtain k where k: "s = Num k" by blast
    have st: "filter (\<lambda>p. neg_score p = - k) (sort_key neg_score sds)
        = filter (\<lambda>p. neg_score p = - k) sds"
      by (rule sort_key_stable)
    have e1: "filter (\<lambda>p. neg_score p = - k) (sort_key neg_score sds)
        = filter (\<lambda>p. snd p = s) (sort_key neg_score sds)"
    proof (rule filter_cong [OF refl])
      fix p assume "p \<in> set (sort_key neg_score sds)"
      from fin [OF this] obtain r where "snd p = Num r" by blast
      then show "(neg_score p = - k) = (snd p = s)" by (simp add: neg_score_def k)
    qed
    have e2: "filter (\<lambda>p. neg_score p = - k) sds = filter (\<lambda>p. snd p = s) sds"
    proof (rule filter_cong [OF refl])
      fix p assume "p \<in> set sds"
      with assms obtain r where "snd p = Num r" by blast
      then show "(neg_score p = - k) = (snd p = s)" by (simp add: neg_score_def k)
    qed
    from st e1 e2 show ?thesis by simp
  next
    case False
    have "\<And>p. p \<in> set sds \<Longrightarrow> snd p \<noteq> s" using assms False by metis
    then have "filter (\<lambda>p. snd p = s) (sort_key neg_score sds) = []"
      and "filter (\<lambda>p. snd p = s) sds = []"
      by (simp_all add: filter_empty_conv)
    then show ?thesis by simp
  qed
  from srt stable show ?thesis unfolding eq by simp
qed

theorem sort_by_score_desc_stable_witness:
  "sort_by by_score_desc [(entry ''a'' [], Num 0), (entry ''b'' [], Num 2), (entry ''c'' [], Num 1),
                          (entry ''d'' [], Num 2)]
     = [(entry ''b'' [], Num 2), (entry ''d'' [], Num 2), (entry ''c'' [], Num 1),
        (entry ''a'' [], Num 0)]"
proof -
  let ?sds = "[(entry ''a'' [], Num 0), (entry ''b'' [], Num 2), (entry ''c'' [], Num 1),
               (entry ''d'' [], Num 2)]"
  have "\<forall>p\<in>set ?sds. \<exists>r. snd p = Num r" by simp
  from sort_by_score_desc_stable [OF this]
  have "mset (sort_by by_score_desc ?sds) = mset ?sds" by blast
  moreover have "sort_by by_score_desc ?sds
     = [(entry ''b'' [], Num 2), (entry ''d'' [], Num 2), (entry ''c'' [], Num 1),
        (entry ''a'' [], Num 0)]"
    by code_simp
  ultimately show ?thesis by simp
qed

lemma mset_BinaryInsertionSort:
  "mset (BinaryInsertionSort comparefn run rest) = mset run + mset rest"
proof (induction rest arbitrary: run)
  case Nil
  show ?case by simp
next
  case (Cons pivot rest)
  define p where "p = BinaryInsertionSort_search comparefn run pivot 0 (length run)"
  have "mset (take p run) + mset (drop p run) = mset run"
    by (metis append_take_drop_id mset_append)
  then have "mset (take p run @ pivot # drop p run) = mset run + {#pivot#}"
    by simp
  with Cons.IH [of "take p run @ pivot # drop p run"] show ?case
    by (simp add: Let_def p_def)
qed

lemma mset_sort_by: "mset (sort_by comparefn xs) = mset xs"
proof (cases "length xs < 2")
  case True
  then show ?thesis by (simp add: sort_by_def)
next
  case False
  obtain workArray runLength where c: "CountAndMakeRun comparefn xs = (workArray, runLength)"
    by (cases "CountAndMakeRun comparefn xs")
  have td: "mset (take n ys) + mset (drop n ys) = mset ys" for n and ys :: "'a list"
    by (metis append_take_drop_id mset_append)
  from c have w: "mset workArray = mset xs"
    by (auto simp: CountAndMakeRun_def Let_def td split: list.splits if_splits)
  from False c w show ?thesis
    by (simp add: sort_by_def mset_BinaryInsertionSort td)
qed

text \<open>
  X5. Whatever the scores are, the search returns the first \<open>topK\<close> entries of an
  arrangement of the whole corpus, each stored entry once: \<open>min topK n\<close> entries of a
  corpus of \<open>n\<close>; and every call that gets the same query embedding returns the same
  sequence.
\<close>

theorem similaritySearch_returns_topK:
  assumes "getEmbedding ext query w = (Inr q, w')" and "q \<noteq> []" and "0 \<le> topK"
  shows "\<exists>ranked.
           similaritySearch ext query topK st w = (Inr (take (nat topK) ranked), w')
         \<and> mset ranked = mset (documents st)
         \<and> length (take (nat topK) ranked) = min (nat topK) (length (documents st))
         \<and> (\<forall>w2 w2'. getEmbedding ext query w2 = (Inr q, w2') \<longrightarrow>
               fst (similaritySearch ext query topK st w2) = Inr (take (nat topK) ranked))"
proof -
  let ?ranked = "map fst (sort_by by_score_desc (scoredDocs q (documents st)))"
  have "mset ?ranked = image_mset fst (mset (scoredDocs q (documents st)))"
    by (simp add: mset_sort_by)
  also have "\<dots> = mset (map fst (scoredDocs q (documents st)))" by simp
  also have "map fst (scoredDocs q (documents st)) = documents st"
    by (simp add: scoredDocs_def comp_def)
  finally have m: "mset ?ranked = mset (documents st)" .
  then have "length ?ranked = length (documents st)" by (metis size_mset)
  then have len: "length (take (nat topK) ?ranked) = min (nat topK) (length (documents st))"
    by simp
  have res: "similaritySearch ext query topK st w2 = (Inr (take (nat topK) ?ranked), w2')"
    if "getEmbedding ext query w2 = (Inr q, w2')" for w2 w2'
    using that assms(2,3) by (simp add: similaritySearch_def slice_zero take_map)
  from res [OF assms(1)] m len res show ?thesis
    by (intro exI [of _ ?ranked]) simp
qed

theorem similaritySearch_returns_topK_witness:
  "getEmbedding ext_q ''query'' () = (Inr [Num 1, Num 0], ())
   \<and> similaritySearch ext_q ''query'' 2
        \<lparr>documents = [entry ''a'' [Num 0, Num 1], entry ''b'' [Num 1, Num 0], entry ''c'' [Num 0, Num 1]],
         listeners = [] :: nat list\<rparr> ()
       = (Inr [entry ''b'' [Num 1, Num 0], entry ''a'' [Num 0, Num 1]], ())"
proof -
  let ?st = "\<lparr>documents = [entry ''a'' [Num 0, Num 1], entry ''b'' [Num 1, Num 0], entry ''c'' [Num 0, Num 1]],
         listeners = [] :: nat list\<rparr>"
  from similaritySearch_returns_topK
    [where ext = ext_q and query = "''query''" and w = "()" and topK = 2 and st = ?st,
      OF getEmbedding_ext_q]
  obtain ranked where
    res: "similaritySearch ext_q ''query'' 2 ?st () = (Inr (take (nat 2) ranked), ())"
    and len: "length (take (nat 2) ranked) = min (nat 2) (length (documents ?st))"
    by auto
  have sc: "scoredDocs [Num 1, Num 0] (documents ?st)
      = [(entry ''a'' [Num 0, Num 1], Num 0), (entry ''b'' [Num 1, Num 0], Num 1),
         (entry ''c'' [Num 0, Num 1], Num 0)]"
    using scores_examples by (simp add: scoredDocs_def entry_def)
  have srt: "sort_by by_score_desc
        [(entry ''a'' [Num 0, Num 1], Num 0), (entry ''b'' [Num 1, Num 0], Num 1),
         (entry ''c'' [Num 0, Num 1], Num 0)]
      = [(entry ''b'' [Num 1, Num 0], Num 1), (entry ''a'' [Num 0, Num 1], Num 0),
         (entry ''c'' [Num 0, Num 1], Num 0)]"
    by code_simp
  have "similaritySearch ext_q ''query'' 2 ?st ()
      = (Inr [entry ''b'' [Num 1, Num 0], entry ''a'' [Num 0, Num 1]], ())"
    using sc srt by (simp add: similaritySearch_def getEmbedding_ext_q slice_def)
  with res len getEmbedding_ext_q show ?thesis by simp
qed

end
